theory Spec2Isabelle
  imports Main
begin

text \<open>
  The tail engine of tail.go (package \<open>tail\<close>) and the change channels of
  filechanges.go (package \<open>watch\<close>), as functions on a tail and a world.

  A method of \<open>*Tail\<close> becomes a function from the tail and the world to its result, the
  tail it leaves and the world it leaves. The world holds the file system, the calls
  made to it so far, the clock, and the turns the environment will take: the engine
  runs alone until it blocks (in \<open>BlockUntilExists\<close>, in the \<open>select\<close> of
  \<open>waitForChanges\<close>), and then the environment changes the file system and says what
  wakes the engine. A call returns, blocks for ever when no turn is left, or panics.
  The task \<open>File\<close> starts is the function \<open>tailFileSync\<close>; the consumer of \<open>Lines\<close> is
  taken to receive every line that is sent. The operating system is Linux on a 64-bit
  machine. Cursors and lengths are natural numbers; an offset that comes from the
  configuration is an \<open>int64\<close>, and a seek wraps it as the machine does.
\<close>

section \<open>Errors\<close>

text \<open>
  The error values of package \<open>tail\<close> (the \<open>var\<close> block of tail.go), together with the
  errors of the libraries the code compares against or passes on: \<open>tomb.ErrDying\<close>,
  \<open>io.EOF\<close>, the path errors of package \<open>os\<close>, the errors built by \<open>fmt.Errorf\<close>
  (through \<open>Killf\<close>) and whatever error a file watcher hands back.
\<close>

datatype errno = ENOENT | EACCES | EINVAL | ESPIPE | EISDIR | ENXIO

datatype error =
    ErrStop
  | ErrInvalidConfig
  | ErrSeek
  | ErrFileCreationDetectionFailure
  | ErrFileOpen
  | ErrDying
  | EOF
  | ErrInvalid
  | PathError string string errno
  | Errorf string
  | WatchError string

fun errno_text :: "errno \<Rightarrow> string" where
  "errno_text ENOENT = ''no such file or directory''"
| "errno_text EACCES = ''permission denied''"
| "errno_text EINVAL = ''invalid argument''"
| "errno_text ESPIPE = ''illegal seek''"
| "errno_text EISDIR = ''is a directory''"
| "errno_text ENXIO = ''no such device or address''"

text \<open>The \<open>Error()\<close> method: the message of an error value.\<close>

fun Error :: "error \<Rightarrow> string" where
  "Error ErrStop = ''The tail should now stop''"
| "Error ErrInvalidConfig = ''Invalid Config options''"
| "Error ErrSeek = ''Seek error''"
| "Error ErrFileCreationDetectionFailure = ''Failed to detect creation of file''"
| "Error ErrFileOpen = ''Unable to open file''"
| "Error ErrDying = ''tomb: dying''"
| "Error EOF = ''EOF''"
| "Error ErrInvalid = ''invalid argument''"
| "Error (PathError op path e) = op @ '' '' @ path @ '': '' @ errno_text e"
| "Error (Errorf msg) = msg"
| "Error (WatchError msg) = msg"

text \<open>\<open>os.IsNotExist\<close>.\<close>

fun IsNotExist :: "error \<Rightarrow> bool" where
  "IsNotExist (PathError op path e) = (e = ENOENT)"
| "IsNotExist _ = False"

section \<open>Data model of tail.go\<close>

record Line =
  Text :: string
  Time :: nat
  Err :: "error option"

record SeekInfo =
  Offset :: int
  Whence :: int

record Config =
  Location :: "SeekInfo option"
  ReOpen :: bool
  MustExist :: bool
  Poll :: bool
  Pipe :: bool
  Follow :: bool

section \<open>The file system the engine runs against\<close>

text \<open>
  A path names nothing, something that cannot be opened, or a file object of some kind
  with an identity; the content of a file object is looked up by its identity, so that an
  open handle keeps reading the object it was opened on after the path has been removed
  or replaced. \<open>holes x i p\<close> says that byte \<open>p\<close> of object \<open>i\<close> lies in a hole of a
  sparse file, and \<open>maxbytes\<close> is the largest offset the file system takes (an
  \<open>int64\<close> in the kernel). A pipe is held open by its writer, so that opening it
  returns at once and a read never finds it closed.
\<close>

datatype fkind = Regular | Fifo | Directory

datatype node = Absent | NoAccess | Node fkind nat

record FS =
  paths :: "string \<Rightarrow> node"
  inodes :: "nat \<Rightarrow> string"
  holes :: "nat \<Rightarrow> nat \<Rightarrow> bool"
  maxbytes :: int

text \<open>An open \<open>*os.File\<close>: the name it was opened with, the object, the cursor.\<close>

record os_File =
  fname :: string
  kind :: fkind
  ino :: nat
  pos :: nat

text \<open>A \<open>*bufio.Reader\<close>: the bytes read from the file and not yet handed out.\<close>

record Reader =
  rbuf :: string

text \<open>
  What the environment does while the engine is blocked: it changes the file system and
  then wakes the engine. \<open>select_event\<close> is what the \<open>select\<close> of \<open>waitForChanges\<close>
  receives, \<open>exists_event\<close> what \<open>BlockUntilExists\<close> returns with; \<open>Killed r\<close> stands for
  another task calling \<open>Kill(r)\<close> on the tomb.
\<close>

datatype select_event = Modified | Truncated | Deleted | Killed "error option"

datatype exists_event = Created | ExistsKilled "error option" | ExistsFailed error

datatype io_event =
    IoOpen string
  | IoClose string
  | IoSeek string int int
  | IoRead string nat
  | IoPrint string
  | IoGo string

record World =
  fs :: FS
  trace :: "io_event list"
  clock :: nat
  watch_err :: "error option"
  changes_script :: "((FS \<Rightarrow> FS) \<times> select_event) list"
  exists_script :: "((FS \<Rightarrow> FS) \<times> exists_event) list"

definition emit :: "io_event \<Rightarrow> World \<Rightarrow> World" where
  "emit e w = w\<lparr>trace := trace w @ [e]\<rparr>"

subsection \<open>Package os\<close>

definition os_Open :: "string \<Rightarrow> World \<Rightarrow> (error + os_File) \<times> World" where
  "os_Open name w =
     (case paths (fs w) name of
        Absent \<Rightarrow> (Inl (PathError ''open'' name ENOENT), emit (IoOpen name) w)
      | NoAccess \<Rightarrow> (Inl (PathError ''open'' name EACCES), emit (IoOpen name) w)
      | Node k i \<Rightarrow>
          (Inr \<lparr>fname = name, kind = k, ino = i, pos = 0\<rparr>, emit (IoOpen name) w))"

text \<open>
  The system call \<open>lseek\<close> behind \<open>Seek(offset, whence)\<close>, which hands \<open>whence\<close> on as it
  is: the new cursor or an error number. The kernel takes \<open>whence\<close> as an unsigned
  32-bit number and knows five values of it: 0, 1 and 2 (from the start, from the
  cursor, from the end), 3 (\<open>SEEK_DATA\<close>: the next byte at or after the offset that is
  not in a hole) and 4 (\<open>SEEK_HOLE\<close>: the next hole, the end of the file being one). A
  pipe cannot seek. A seek by 0 from the cursor only reports it. The sums are taken in
  \<open>int64\<close>, and a target that is negative or beyond the limit of the file system is
  refused; that limit is itself an \<open>int64\<close>.
\<close>

definition int64 :: "int \<Rightarrow> int" where
  "int64 x = (x + 2 ^ 63) mod 2 ^ 64 - 2 ^ 63"

definition s_maxbytes :: "FS \<Rightarrow> int" where
  "s_maxbytes x = min (maxbytes x) (2 ^ 63 - 1)"

definition seek_data :: "(nat \<Rightarrow> bool) \<Rightarrow> nat \<Rightarrow> int \<Rightarrow> errno + int" where
  "seek_data hole eof off =
     (if off < 0 \<or> int eof \<le> off then Inl ENXIO
      else (case find (\<lambda>p. \<not> hole p) [nat off..<eof] of
              None \<Rightarrow> Inl ENXIO
            | Some p \<Rightarrow> Inr (int p)))"

definition seek_hole :: "(nat \<Rightarrow> bool) \<Rightarrow> nat \<Rightarrow> int \<Rightarrow> errno + int" where
  "seek_hole hole eof off =
     (if off < 0 \<or> int eof \<le> off then Inl ENXIO
      else (case find hole [nat off..<eof] of
              None \<Rightarrow> Inr (int eof)
            | Some p \<Rightarrow> Inr (int p)))"

definition lseek :: "FS \<Rightarrow> os_File \<Rightarrow> int \<Rightarrow> int \<Rightarrow> errno + nat" where
  "lseek x f off wh =
     (let whence = wh mod 2 ^ 32; offset = int64 off; eof = length (inodes x (ino f)) in
      if 4 < whence then Inl EINVAL
      else if kind f = Fifo then Inl ESPIPE
      else if whence = 1 \<and> offset = 0 then Inr (pos f)
      else
        (case (if whence = 0 then Inr offset
               else if whence = 1 then Inr (int64 (int (pos f) + offset))
               else if whence = 2 then Inr (int64 (int eof + offset))
               else if whence = 3 then seek_data (holes x (ino f)) eof offset
               else seek_hole (holes x (ino f)) eof offset) of
           Inl e \<Rightarrow> Inl e
         | Inr target \<Rightarrow>
             if target < 0 \<or> s_maxbytes x < target then Inl EINVAL else Inr (nat target)))"

text \<open>\<open>Seek(offset, whence)\<close> returns the new cursor, or \<open>(0, err)\<close> with a path error.\<close>

definition os_Seek :: "os_File \<Rightarrow> int \<Rightarrow> int \<Rightarrow> World \<Rightarrow> (error + int) \<times> os_File \<times> World" where
  "os_Seek f off wh w =
     (let w' = emit (IoSeek (fname f) off wh) w in
      case lseek (fs w) f off wh of
        Inl e \<Rightarrow> (Inl (PathError ''seek'' (fname f) e), f, w')
      | Inr p \<Rightarrow> (Inr (int p), f\<lparr>pos := p\<rparr>, w'))"

text \<open>How a call ends: it returns a value, blocks for ever, or panics.\<close>

datatype 'a outcome = Ret 'a | Block | Panic

text \<open>
  \<open>Read\<close> of at most \<open>n\<close> bytes at the cursor. On a regular file: \<open>io.EOF\<close> when nothing is
  left. On a directory: an error. On a pipe the cursor counts what has been taken out
  of it; when nothing is left in it the read waits for the writer, who holds the pipe
  open and in the model writes nothing while a read waits: the call does not return.
\<close>

definition os_Read ::
  "os_File \<Rightarrow> nat \<Rightarrow> World \<Rightarrow> (error + string) outcome \<times> os_File \<times> World" where
  "os_Read f n w =
     (let w' = emit (IoRead (fname f) n) w in
      if kind f = Directory then (Ret (Inl (PathError ''read'' (fname f) EISDIR)), f, w')
      else (let data = take n (drop (pos f) (inodes (fs w) (ino f))) in
            if data = [] then (if kind f = Fifo then (Block, f, w') else (Ret (Inl EOF), f, w'))
            else (Ret (Inr data), f\<lparr>pos := pos f + length data\<rparr>, w')))"

definition os_Close :: "os_File \<Rightarrow> World \<Rightarrow> World" where
  "os_Close f w = emit (IoClose (fname f)) w"

definition Println :: "string \<Rightarrow> World \<Rightarrow> World" where
  "Println s w = emit (IoPrint s) w"

subsection \<open>Package tomb\<close>

text \<open>
  The tomb of the tail: alive until the first \<open>Kill\<close>; the first non-nil reason stays;
  \<open>Kill(ErrDying)\<close> changes nothing and panics on a tomb that is still alive; \<open>Done\<close>
  kills with nil and marks the tomb dead, and panics on a tomb that is dead already.
  \<open>None\<close> is the panic.
\<close>

record Tomb =
  dying :: bool
  reason :: "error option"
  dead :: bool

definition Kill :: "error option \<Rightarrow> Tomb \<Rightarrow> Tomb option" where
  "Kill r tb =
     (if r = Some ErrDying then (if dying tb then Some tb else None)
      else Some (tb\<lparr>reason := (if reason tb = None then r else reason tb), dying := True\<rparr>))"

definition Done :: "Tomb \<Rightarrow> Tomb option" where
  "Done tb =
     (case Kill None tb of
        None \<Rightarrow> None
      | Some tb' \<Rightarrow> if dead tb' then None else Some (tb'\<lparr>dead := True\<rparr>))"

subsection \<open>Package watch: the change channels\<close>

text \<open>
  A Go channel of booleans, as far as a non-blocking send can tell: its capacity, the
  values queued in it, the number of tasks blocked receiving from it, the values handed
  to receivers, and whether it has been closed.
\<close>

record chan =
  cap :: nat
  queue :: "bool list"
  receivers :: nat
  received :: "bool list"
  closed :: bool

definition make_chan :: chan where
  "make_chan = \<lparr>cap = 0, queue = [], receivers = 0, received = [], closed = False\<rparr>"

record FileChanges =
  chModified :: chan
  chTruncated :: chan
  chDeleted :: chan

definition NewFileChanges :: FileChanges where
  "NewFileChanges = \<lparr>chModified = make_chan, chTruncated = make_chan, chDeleted = make_chan\<rparr>"

datatype FileWatcher = PollingFileWatcher string | InotifyFileWatcher string

section \<open>The tail\<close>

record Tail =
  Filename :: string
  Lines :: "Line list"
  lines_closed :: bool
  config :: Config
  file' :: "os_File option"
  reader :: "Reader option"
  watcher :: FileWatcher
  changes :: "FileChanges option"
  tomb :: Tomb

text \<open>\<open>NewLine\<close>: a line stamped with the current time and no error.\<close>

definition NewLine :: "string \<Rightarrow> World \<Rightarrow> Line \<times> World" where
  "NewLine text w = (\<lparr>Text = text, Time = clock w, Err = None\<rparr>, w\<lparr>clock := Suc (clock w)\<rparr>)"

text \<open>
  \<open>File\<close>: the configuration check, the tail value, the watcher, the synchronous open
  under \<open>MustExist\<close>, and the \<open>go\<close> statement, which the trace records.
\<close>

definition File :: "string \<Rightarrow> Config \<Rightarrow> World \<Rightarrow> (error + Tail) \<times> World" where
  "File filename cfg w =
     (if ReOpen cfg \<and> \<not> Follow cfg then (Inl ErrInvalidConfig, w)
      else
        (let t = \<lparr>Filename = filename, Lines = [], lines_closed = False, config = cfg,
                  file' = None, reader = None,
                  watcher = (if Poll cfg then PollingFileWatcher filename
                             else InotifyFileWatcher filename),
                  changes = None,
                  tomb = \<lparr>dying = False, reason = None, dead = False\<rparr>\<rparr>
         in if MustExist cfg then
              (case os_Open filename (Println filename w) of
                 (Inl err, w') \<Rightarrow> (Inl err, w')
               | (Inr f, w') \<Rightarrow> (Inr (t\<lparr>file' := Some f\<rparr>), emit (IoGo filename) w'))
            else (Inr t, emit (IoGo filename) w)))"

text \<open>
  \<open>Tell\<close>: nothing to do without a file; otherwise the cursor, less what the reader
  holds. A nil reader under an open file is a nil dereference.
\<close>

definition Tell :: "Tail \<Rightarrow> World \<Rightarrow> (int \<times> error option) outcome \<times> Tail \<times> World" where
  "Tell t w =
     (case file' t of
        None \<Rightarrow> (Ret (0, None), t, w)
      | Some f \<Rightarrow>
          (case os_Seek f 0 1 w of
             (Inl err, f', w') \<Rightarrow> (Ret (0, Some err), t\<lparr>file' := Some f'\<rparr>, w')
           | (Inr offset, f', w') \<Rightarrow>
               (case reader t of
                  None \<Rightarrow> (Panic, t\<lparr>file' := Some f'\<rparr>, w')
                | Some r \<Rightarrow>
                    (Ret (offset - int (length (rbuf r)), None), t\<lparr>file' := Some f'\<rparr>, w'))))"

subsection \<open>Closing and reopening\<close>

text \<open>
  Sending on a channel that has been closed, and closing it a second time, panic:
  \<open>close\<close> closes \<open>Lines\<close> and then the file.
\<close>

definition closeFile :: "Tail \<Rightarrow> World \<Rightarrow> Tail \<times> World" where
  "closeFile t w =
     (case file' t of
        None \<Rightarrow> (t, w)
      | Some f \<Rightarrow> (t\<lparr>file' := None\<rparr>, os_Close f w))"

definition close :: "Tail \<Rightarrow> World \<Rightarrow> unit outcome \<times> Tail \<times> World" where
  "close t w =
     (if lines_closed t then (Panic, t, w)
      else (case closeFile (t\<lparr>lines_closed := True\<rparr>) w of (t', w') \<Rightarrow> (Ret (), t', w')))"

text \<open>
  \<open>BlockUntilExists\<close> of the watcher, given the tomb: it returns \<open>tomb.ErrDying\<close> on a
  dying tomb; otherwise the environment takes its turn and says how the wait ends. With
  nothing left in the script the wait never ends.
\<close>

definition BlockUntilExists :: "Tail \<Rightarrow> World \<Rightarrow> error option outcome \<times> Tail \<times> World" where
  "BlockUntilExists t w =
     (if dying (tomb t) then (Ret (Some ErrDying), t, w)
      else (case exists_script w of
              [] \<Rightarrow> (Block, t, w)
            | (chg, ev) # rest \<Rightarrow>
                (let w' = w\<lparr>fs := chg (fs w), exists_script := rest\<rparr> in
                 case ev of
                   Created \<Rightarrow> (Ret None, t, w')
                 | ExistsKilled r \<Rightarrow>
                     (case Kill r (tomb t) of
                        None \<Rightarrow> (Panic, t, w')
                      | Some tb \<Rightarrow> (Ret (Some ErrDying), t\<lparr>tomb := tb\<rparr>, w'))
                 | ExistsFailed e \<Rightarrow> (Ret (Some e), t, w'))))"

lemma BlockUntilExists_shorter:
  "BlockUntilExists t w = (Ret None, t', w') \<Longrightarrow>
     length (exists_script w') < length (exists_script w)"
  by (auto simp: BlockUntilExists_def Let_def
      split: if_splits list.splits exists_event.splits option.splits)

lemma os_Open_scripts:
  "os_Open name w = (r, w') \<Longrightarrow>
     exists_script w' = exists_script w \<and> changes_script w' = changes_script w \<and> fs w' = fs w"
  by (auto simp: os_Open_def emit_def split: node.splits)

text \<open>The \<open>for\<close> loop of \<open>reopen\<close>, after \<open>closeFile\<close>.\<close>

function reopen_loop :: "Tail \<Rightarrow> World \<Rightarrow> error option outcome \<times> Tail \<times> World" where
  "reopen_loop t w =
     (case os_Open (Filename t) w of
        (Inl err, w1) \<Rightarrow>
          (if IsNotExist err then
             (case BlockUntilExists (t\<lparr>file' := None\<rparr>) w1 of
                (Ret (Some err'), t2, w2) \<Rightarrow>
                  (if err' = ErrDying then (Ret (Some err'), t2, w2)
                   else (Ret (Some ErrFileCreationDetectionFailure), t2, w2))
              | (Ret None, t2, w2) \<Rightarrow> reopen_loop t2 w2
              | (Block, t2, w2) \<Rightarrow> (Block, t2, w2)
              | (Panic, t2, w2) \<Rightarrow> (Panic, t2, w2))
           else (Ret (Some ErrFileOpen), t\<lparr>file' := None\<rparr>, w1))
      | (Inr f, w1) \<Rightarrow> (Ret None, t\<lparr>file' := Some f\<rparr>, w1))"
  by pat_completeness auto
termination
  by (relation "measure (\<lambda>(t, w). length (exists_script w))")
    (auto dest!: BlockUntilExists_shorter [OF sym] os_Open_scripts [OF sym])

definition reopen :: "Tail \<Rightarrow> World \<Rightarrow> error option outcome \<times> Tail \<times> World" where
  "reopen t w = (case closeFile t w of (t', w') \<Rightarrow> reopen_loop t' w')"

subsection \<open>Reading lines\<close>

text \<open>
  \<open>bufio.NewReader\<close> gives a reader with nothing buffered and a buffer of
  \<open>defaultBufSize\<close> bytes; \<open>Reset\<close> throws the buffered bytes away. The reader of a tail
  always reads from the file of that tail: \<open>openReader\<close> follows every successful open
  and \<open>seekTo\<close> resets the reader on \<open>tail.file\<close>.
\<close>

definition defaultBufSize :: nat where
  "defaultBufSize = 4096"

definition NewReader :: Reader where
  "NewReader = \<lparr>rbuf = []\<rparr>"

definition Reset :: "Reader \<Rightarrow> Reader" where
  "Reset r = r\<lparr>rbuf := []\<rparr>"

definition openReader :: "Tail \<Rightarrow> Tail" where
  "openReader t = t\<lparr>reader := Some NewReader\<rparr>"

text \<open>A method of a nil \<open>*os.File\<close> returns \<open>os.ErrInvalid\<close>.\<close>

definition file_Seek ::
  "os_File option \<Rightarrow> int \<Rightarrow> int \<Rightarrow> World \<Rightarrow> (error + int) \<times> os_File option \<times> World" where
  "file_Seek fo off wh w =
     (case fo of
        None \<Rightarrow> (Inl ErrInvalid, None, w)
      | Some f \<Rightarrow> (case os_Seek f off wh w of (r, f', w') \<Rightarrow> (r, Some f', w')))"

definition file_Read ::
  "os_File option \<Rightarrow> nat \<Rightarrow> World \<Rightarrow> (error + string) outcome \<times> os_File option \<times> World" where
  "file_Read fo n w =
     (case fo of
        None \<Rightarrow> (Ret (Inl ErrInvalid), None, w)
      | Some f \<Rightarrow> (case os_Read f n w of (r, f', w') \<Rightarrow> (r, Some f', w')))"

text \<open>The part of a string up to and with the first delimiter, and the rest.\<close>

definition split_delim :: "char \<Rightarrow> string \<Rightarrow> (string \<times> string) option" where
  "split_delim d s =
     (if d \<in> set s
      then Some (takeWhile (\<lambda>c. c \<noteq> d) s @ [d], tl (dropWhile (\<lambda>c. c \<noteq> d) s))
      else None)"

definition remaining :: "os_File option \<Rightarrow> World \<Rightarrow> nat" where
  "remaining fo w =
     (case fo of None \<Rightarrow> 0 | Some f \<Rightarrow> length (inodes (fs w) (ino f)) - pos f)"

lemma file_Read_progress:
  "file_Read fo n w = (Ret (Inr data), fo', w') \<Longrightarrow> remaining fo' w' < remaining fo w"
  by (auto simp: file_Read_def os_Read_def remaining_def Let_def emit_def
      split: option.splits if_splits)

text \<open>
  \<open>ReadString(delim)\<close>: hand out the buffered bytes up to the delimiter; without one,
  keep what is buffered, fill the buffer from the file and go on; a read that fails
  (\<open>io.EOF\<close> at the end of the data) ends the call with what has been collected and the
  error, and a read that does not return keeps the call from returning. Every fill asks the file for \<open>defaultBufSize\<close> bytes; the reader of the library
  asks for the room left in its buffer, which moves the boundaries between the reads and
  changes neither what is handed out nor the cursor less the buffered bytes.
\<close>

function ReadString ::
  "char \<Rightarrow> string \<Rightarrow> Reader \<Rightarrow> os_File option \<Rightarrow> World \<Rightarrow>
     (string \<times> error option) outcome \<times> Reader \<times> os_File option \<times> World" where
  "ReadString delim acc r fo w =
     (case split_delim delim (rbuf r) of
        Some (pre, post) \<Rightarrow> (Ret (acc @ pre, None), r\<lparr>rbuf := post\<rparr>, fo, w)
      | None \<Rightarrow>
          (case file_Read fo defaultBufSize w of
             (Ret (Inl err), fo', w') \<Rightarrow> (Ret (acc @ rbuf r, Some err), r\<lparr>rbuf := []\<rparr>, fo', w')
           | (Ret (Inr data), fo', w') \<Rightarrow>
               ReadString delim (acc @ rbuf r) (r\<lparr>rbuf := data\<rparr>) fo' w'
           | (Block, fo', w') \<Rightarrow> (Block, r, fo', w')
           | (Panic, fo', w') \<Rightarrow> (Panic, r, fo', w')))"
  by pat_completeness auto
termination
  by (relation "measure (\<lambda>(delim, acc, r, fo, w). remaining fo w)")
    (auto dest!: file_Read_progress [OF sym])

text \<open>\<open>strings.TrimRight\<close>: drop the trailing characters that are in the cutset.\<close>

definition TrimRight :: "string \<Rightarrow> string \<Rightarrow> string" where
  "TrimRight s cutset = rev (dropWhile (\<lambda>c. c \<in> set cutset) (rev s))"

definition newline :: char where
  "newline = CHR 0x0A"

definition readLine :: "Tail \<Rightarrow> World \<Rightarrow> (string \<times> error option) outcome \<times> Tail \<times> World" where
  "readLine t w =
     (case reader t of
        None \<Rightarrow> (Panic, t, w)
      | Some r \<Rightarrow>
          (case ReadString newline [] r (file' t) w of
             (Ret (line, Some err), r', fo, w') \<Rightarrow>
               (Ret (line, Some err), t\<lparr>reader := Some r', file' := fo\<rparr>, w')
           | (Ret (line, None), r', fo, w') \<Rightarrow>
               (Ret (TrimRight line [newline], None), t\<lparr>reader := Some r', file' := fo\<rparr>, w')
           | (Block, r', fo, w') \<Rightarrow> (Block, t\<lparr>reader := Some r', file' := fo\<rparr>, w')
           | (Panic, r', fo, w') \<Rightarrow> (Panic, t\<lparr>reader := Some r', file' := fo\<rparr>, w')))"

definition seekTo :: "Tail \<Rightarrow> SeekInfo \<Rightarrow> World \<Rightarrow> error option outcome \<times> Tail \<times> World" where
  "seekTo t sk w =
     (case file_Seek (file' t) (Offset sk) (Whence sk) w of
        (Inl err, fo, w') \<Rightarrow> (Ret (Some ErrSeek), t\<lparr>file' := fo\<rparr>, w')
      | (Inr p, fo, w') \<Rightarrow>
          (case reader t of
             None \<Rightarrow> (Panic, t\<lparr>file' := fo\<rparr>, w')
           | Some r \<Rightarrow> (Ret None, t\<lparr>file' := fo, reader := Some (Reset r)\<rparr>, w')))"

definition seekEnd :: "Tail \<Rightarrow> World \<Rightarrow> error option outcome \<times> Tail \<times> World" where
  "seekEnd t w = seekTo t \<lparr>Offset = 0, Whence = 2\<rparr> w"

text \<open>
  \<open>sendLine\<close>: the line goes to \<open>Lines\<close> with the time of the send and a nil error; the
  consumer is taken to receive it.
\<close>

definition sendLine :: "Tail \<Rightarrow> string \<Rightarrow> World \<Rightarrow> unit outcome \<times> Tail \<times> World" where
  "sendLine t line w =
     (if lines_closed t then (Panic, t, w)
      else (Ret (), t\<lparr>Lines := Lines t @ [\<lparr>Text = line, Time = clock w, Err = None\<rparr>]\<rparr>,
            w\<lparr>clock := Suc (clock w)\<rparr>))"

subsection \<open>Waiting for changes\<close>

text \<open>
  A send that may block, and the \<open>select\<close> with a \<open>default\<close> case around it: the send is
  taken when a receiver is waiting or the queue has room, and panics on a closed
  channel; otherwise \<open>sendOnlyIfEmpty\<close> takes the default case and does nothing.
\<close>

definition chan_send :: "chan \<Rightarrow> bool \<Rightarrow> chan outcome" where
  "chan_send ch v =
     (if closed ch then Panic
      else if 0 < receivers ch
        then Ret (ch\<lparr>receivers := receivers ch - 1, received := received ch @ [v]\<rparr>)
      else if length (queue ch) < cap ch then Ret (ch\<lparr>queue := queue ch @ [v]\<rparr>)
      else Block)"

definition sendOnlyIfEmpty :: "chan \<Rightarrow> chan outcome" where
  "sendOnlyIfEmpty ch = (case chan_send ch True of Block \<Rightarrow> Ret ch | r \<Rightarrow> r)"

fun map_outcome :: "('a \<Rightarrow> 'b) \<Rightarrow> 'a outcome \<Rightarrow> 'b outcome" where
  "map_outcome g (Ret x) = Ret (g x)"
| "map_outcome g Block = Block"
| "map_outcome g Panic = Panic"

definition NotifyModified :: "FileChanges \<Rightarrow> FileChanges outcome" where
  "NotifyModified fc = map_outcome (\<lambda>ch. fc\<lparr>chModified := ch\<rparr>) (sendOnlyIfEmpty (chModified fc))"

definition NotifyTruncated :: "FileChanges \<Rightarrow> FileChanges outcome" where
  "NotifyTruncated fc =
     map_outcome (\<lambda>ch. fc\<lparr>chTruncated := ch\<rparr>) (sendOnlyIfEmpty (chTruncated fc))"

definition NotifyDeleted :: "FileChanges \<Rightarrow> FileChanges outcome" where
  "NotifyDeleted fc = map_outcome (\<lambda>ch. fc\<lparr>chDeleted := ch\<rparr>) (sendOnlyIfEmpty (chDeleted fc))"

text \<open>
  \<open>ChangeEvents\<close> of the watcher: the change channels, or the error the watcher has
  setting itself up.
\<close>

definition ChangeEvents :: "FileWatcher \<Rightarrow> int \<Rightarrow> World \<Rightarrow> (error + FileChanges) \<times> World" where
  "ChangeEvents fw p w =
     (case watch_err w of
        Some err \<Rightarrow> (Inl err, w)
      | None \<Rightarrow> (Inr NewFileChanges, w))"

text \<open>
  \<open>waitForChanges\<close>. The \<open>select\<close> finds the tomb dying, or the environment takes its
  turn and one of the signals arrives; with nothing left in the script it waits for
  ever.
\<close>

definition waitForChanges :: "Tail \<Rightarrow> World \<Rightarrow> error option outcome \<times> Tail \<times> World" where
  "waitForChanges t w =
     (case (if changes t = None then
              (case file_Seek (file' t) 0 1 w of
                 (Inl err, fo, w1) \<Rightarrow> (Some err, t\<lparr>file' := fo\<rparr>, w1)
               | (Inr p, fo, w1) \<Rightarrow>
                   (case ChangeEvents (watcher t) p w1 of
                      (Inl err, w2) \<Rightarrow> (Some err, t\<lparr>file' := fo, changes := None\<rparr>, w2)
                    | (Inr fc, w2) \<Rightarrow> (None, t\<lparr>file' := fo, changes := Some fc\<rparr>, w2)))
            else (None, t, w)) of
        (Some err, t1, w1) \<Rightarrow> (Ret (Some err), t1, w1)
      | (None, t1, w1) \<Rightarrow>
          (if dying (tomb t1) then (Ret (Some ErrStop), t1, w1)
           else
             (case changes_script w1 of
                [] \<Rightarrow> (Block, t1, w1)
              | (chg, ev) # rest \<Rightarrow>
                  (let w2 = w1\<lparr>fs := chg (fs w1), changes_script := rest\<rparr> in
                   case ev of
                     Modified \<Rightarrow> (Ret None, t1, w2)
                   | Deleted \<Rightarrow>
                       (if ReOpen (config t1) then
                          (case reopen (t1\<lparr>changes := None\<rparr>) w2 of
                             (Ret None, t3, w3) \<Rightarrow> (Ret None, openReader t3, w3)
                           | (r, t3, w3) \<Rightarrow> (r, t3, w3))
                        else (Ret (Some ErrStop), t1\<lparr>changes := None\<rparr>, w2))
                   | Truncated \<Rightarrow>
                       (case reopen t1 w2 of
                          (Ret None, t3, w3) \<Rightarrow> (Ret None, openReader t3, w3)
                        | (r, t3, w3) \<Rightarrow> (r, t3, w3))
                   | Killed r \<Rightarrow>
                       (case Kill r (tomb t1) of
                          None \<Rightarrow> (Panic, t1, w2)
                        | Some tb \<Rightarrow> (Ret (Some ErrStop), t1\<lparr>tomb := tb\<rparr>, w2))))))"

subsection \<open>The read loop\<close>

fun stop_of :: "'a outcome \<Rightarrow> unit outcome" where
  "stop_of (Ret x) = Ret ()"
| "stop_of Block = Block"
| "stop_of Panic = Panic"

text \<open>\<open>tail.Kill(err); return\<close>.\<close>

definition kill_return :: "error \<Rightarrow> Tail \<Rightarrow> World \<Rightarrow> unit outcome \<times> Tail \<times> World" where
  "kill_return err t w =
     (case Kill (Some err) (tomb t) of
        None \<Rightarrow> (Panic, t, w)
      | Some tb \<Rightarrow> (Ret (), t\<lparr>tomb := tb\<rparr>, w))"

text \<open>The \<open>select\<close> on \<open>tail.Dying()\<close> that ends each round of the loop.\<close>

definition poll_dying ::
  "int \<Rightarrow> Tail \<Rightarrow> World \<Rightarrow> (int \<times> Tail \<times> World) + (unit outcome \<times> Tail \<times> World)" where
  "poll_dying offset t w = (if dying (tomb t) then Inr (Ret (), t, w) else Inl (offset, t, w))"

text \<open>
  The end of a round that found \<open>io.EOF\<close> with \<open>Follow\<close> set: wait for changes; an error
  other than \<open>ErrStop\<close> kills the tail, \<open>ErrStop\<close> just returns; after a change the round
  ends like any other.
\<close>

definition wait_more ::
  "int \<Rightarrow> Tail \<Rightarrow> World \<Rightarrow> (int \<times> Tail \<times> World) + (unit outcome \<times> Tail \<times> World)" where
  "wait_more offset t w =
     (case waitForChanges t w of
        (Ret (Some err), t2, w2) \<Rightarrow>
          (if err \<noteq> ErrStop then Inr (kill_return err t2 w2) else Inr (Ret (), t2, w2))
      | (Ret None, t2, w2) \<Rightarrow> poll_dying offset t2 w2
      | (e, t2, w2) \<Rightarrow> Inr (stop_of e, t2, w2))"

text \<open>
  The branch of the loop for \<open>err == io.EOF\<close>, with the line read and the offset taken
  before the read: without \<open>Follow\<close> the rest is sent and the function returns; with
  it, a half line is put back by seeking to the offset, and the engine waits.
\<close>

definition on_EOF ::
  "int \<Rightarrow> string \<Rightarrow> Tail \<Rightarrow> World \<Rightarrow>
     (int \<times> Tail \<times> World) + (unit outcome \<times> Tail \<times> World)" where
  "on_EOF offset line t w =
     (if \<not> Follow (config t) then
        (if line \<noteq> [] then Inr (sendLine t line w) else Inr (Ret (), t, w))
      else
        (case (if Follow (config t) \<and> line \<noteq> []
               then seekTo t \<lparr>Offset = offset, Whence = 0\<rparr> (Println line w)
               else (Ret None, t, w)) of
           (Ret (Some err), t1, w1) \<Rightarrow> Inr (kill_return err t1 w1)
         | (Ret None, t1, w1) \<Rightarrow> wait_more offset t1 w1
         | (e, t1, w1) \<Rightarrow> Inr (stop_of e, t1, w1)))"

text \<open>
  One round of the \<open>for\<close> loop of \<open>tailFileSync\<close>, from the value of \<open>offset\<close> the round
  before left: \<open>Inl\<close> goes round again, \<open>Inr\<close> leaves the function.
\<close>

definition iteration ::
  "int \<Rightarrow> Tail \<Rightarrow> World \<Rightarrow> (int \<times> Tail \<times> World) + (unit outcome \<times> Tail \<times> World)" where
  "iteration offset t w =
     (case (if \<not> Pipe (config t) then Tell t w else (Ret (offset, None), t, w)) of
        (Ret (offset1, Some err), t1, w1) \<Rightarrow> Inr (kill_return err t1 w1)
      | (Ret (offset1, None), t1, w1) \<Rightarrow>
          (case readLine t1 w1 of
             (Ret (line, None), t2, w2) \<Rightarrow>
               (case sendLine t2 line w2 of
                  (Ret u, t3, w3) \<Rightarrow> poll_dying offset1 t3 w3
                | (e, t3, w3) \<Rightarrow> Inr (e, t3, w3))
           | (Ret (line, Some err), t2, w2) \<Rightarrow>
               (if err = EOF then on_EOF offset1 line t2 w2
                else Inr (kill_return
                            (Errorf (''Error reading '' @ Filename t2 @ '': '' @ Error err)) t2 w2))
           | (e, t2, w2) \<Rightarrow> Inr (stop_of e, t2, w2))
      | (e, t1, w1) \<Rightarrow> Inr (stop_of e, t1, w1))"

text \<open>
  The loop ends: a round that goes round again has read a whole line out of what was
  unread, or has waited and used up a turn of the environment.
\<close>

declare ReadString.simps [simp del] reopen_loop.simps [simp del]

definition script_len :: "World \<Rightarrow> nat" where
  "script_len w = length (changes_script w) + length (exists_script w)"

definition unread :: "Tail \<Rightarrow> World \<Rightarrow> nat" where
  "unread t w = (case reader t of None \<Rightarrow> 0 | Some r \<Rightarrow> length (rbuf r)) + remaining (file' t) w"

lemma emit_simps [simp]:
  "fs (emit e w) = fs w" "changes_script (emit e w) = changes_script w"
  "exists_script (emit e w) = exists_script w" "clock (emit e w) = clock w"
  "watch_err (emit e w) = watch_err w" "trace (emit e w) = trace w @ [e]"
  by (simp_all add: emit_def)

lemma int64_id: "- (2 ^ 63) \<le> x \<Longrightarrow> x < 2 ^ 63 \<Longrightarrow> int64 x = x"
  by (simp add: int64_def)

lemma s_maxbytes_range: "s_maxbytes x < 2 ^ 63"
  by (simp add: s_maxbytes_def)

lemma lseek_cur: "lseek x f 0 1 = (if kind f = Fifo then Inl ESPIPE else Inr (pos f))"
  by (simp add: lseek_def int64_def)

lemma lseek_set:
  "0 \<le> off \<Longrightarrow> off \<le> s_maxbytes x \<Longrightarrow> kind f \<noteq> Fifo \<Longrightarrow> lseek x f off 0 = Inr (nat off)"
  using s_maxbytes_range [of x] by (simp add: lseek_def int64_id)

lemma os_Seek_world: "os_Seek f off wh w = (r, f', w') \<Longrightarrow> w' = emit (IoSeek (fname f) off wh) w"
  by (auto simp: os_Seek_def Let_def split: sum.splits)

lemma file_Seek_world:
  "file_Seek fo off wh w = (r, fo', w') \<Longrightarrow> fs w' = fs w \<and> script_len w' = script_len w"
  by (auto simp: file_Seek_def script_len_def split: option.splits prod.splits
      dest!: os_Seek_world)

lemma file_Read_exact:
  "file_Read fo n w = (Ret (Inr data), fo', w') \<Longrightarrow>
     remaining fo' w' + length data = remaining fo w \<and> script_len w' = script_len w"
  by (auto simp: file_Read_def os_Read_def remaining_def Let_def script_len_def
      split: option.splits if_splits)

lemma file_Read_scripts:
  "file_Read fo n w = (r, fo', w') \<Longrightarrow> script_len w' = script_len w"
  by (auto simp: file_Read_def os_Read_def Let_def script_len_def
      split: option.splits if_splits)

lemma split_delim_shorter:
  "split_delim d s = Some (pre, post) \<Longrightarrow> length post < length s"
  using length_dropWhile_le [of "\<lambda>c. c \<noteq> d" s]
  by (cases s) (auto simp: split_delim_def split: if_splits)

lemma ReadString_progress:
  "ReadString d acc r fo w = (Ret (line, None), r', fo', w') \<Longrightarrow>
     length (rbuf r') + remaining fo' w' < length (rbuf r) + remaining fo w"
proof (induction d acc r fo w rule: ReadString.induct)
  case (1 delim acc r fo w)
  show ?case
  proof (cases "split_delim delim (rbuf r)")
    case (Some pp)
    then show ?thesis using "1.prems" split_delim_shorter [of delim "rbuf r" "fst pp" "snd pp"]
      by (cases pp) (auto simp add: ReadString.simps [of delim acc r fo w])
  next
    case None
    obtain res fo1 w1 where rd: "file_Read fo defaultBufSize w = (res, fo1, w1)"
      by (cases "file_Read fo defaultBufSize w") auto
    show ?thesis
    proof (cases "\<exists>data. res = Ret (Inr data)")
      case False
      then show ?thesis using "1.prems" None rd
        by (cases res) (auto simp add: ReadString.simps [of delim acc r fo w] split: sum.splits)
    next
      case True
      then obtain data where Inr: "res = Ret (Inr data)" by auto
      have "ReadString delim (acc @ rbuf r) (r\<lparr>rbuf := data\<rparr>) fo1 w1 = (Ret (line, None), r', fo', w')"
        using "1.prems" None rd Inr by (simp add: ReadString.simps [of delim acc r fo w])
      then have "length (rbuf r') + remaining fo' w' < length data + remaining fo1 w1"
        using "1.IH" [OF None rd [symmetric] Inr refl refl] by simp
      then show ?thesis using file_Read_exact [of fo defaultBufSize w data fo1 w1] rd Inr
        by simp
    qed
  qed
qed

lemma ReadString_scripts:
  "ReadString d acc r fo w = (res, r', fo', w') \<Longrightarrow> script_len w' = script_len w"
proof (induction d acc r fo w rule: ReadString.induct)
  case (1 delim acc r fo w)
  show ?case
  proof (cases "split_delim delim (rbuf r)")
    case (Some pp)
    then show ?thesis using "1.prems"
      by (cases pp) (auto simp add: ReadString.simps [of delim acc r fo w])
  next
    case None
    obtain res1 fo1 w1 where rd: "file_Read fo defaultBufSize w = (res1, fo1, w1)"
      by (cases "file_Read fo defaultBufSize w") auto
    show ?thesis
    proof (cases "\<exists>data. res1 = Ret (Inr data)")
      case False
      then show ?thesis using "1.prems" None rd file_Read_scripts [OF rd]
        by (cases res1) (auto simp add: ReadString.simps [of delim acc r fo w] split: sum.splits)
    next
      case True
      then obtain data where Inr: "res1 = Ret (Inr data)" by auto
      have "ReadString delim (acc @ rbuf r) (r\<lparr>rbuf := data\<rparr>) fo1 w1 = (res, r', fo', w')"
        using "1.prems" None rd Inr by (simp add: ReadString.simps [of delim acc r fo w])
      then have "script_len w' = script_len w1"
        using "1.IH" [OF None rd [symmetric] Inr refl refl] by simp
      then show ?thesis using file_Read_scripts [OF rd] by simp
    qed
  qed
qed

lemma Tell_same:
  "Tell t w = (r, t', w') \<Longrightarrow>
     t' = t \<and> script_len w' = script_len w \<and> unread t w' = unread t w"
  by (auto simp: Tell_def os_Seek_def lseek_cur Let_def script_len_def unread_def
      remaining_def split: option.splits if_splits)

lemma readLine_progress:
  "readLine t w = (Ret (line, None), t', w') \<Longrightarrow>
     unread t' w' < unread t w \<and> script_len w' = script_len w"
  by (auto simp: readLine_def unread_def split: option.splits prod.splits outcome.splits
      dest: ReadString_progress ReadString_scripts)

lemma readLine_scripts:
  "readLine t w = (r, t', w') \<Longrightarrow> script_len w' = script_len w"
  by (auto simp: readLine_def split: option.splits prod.splits outcome.splits
      dest: ReadString_scripts)

lemma sendLine_same:
  "sendLine t line w = (Ret u, t', w') \<Longrightarrow>
     unread t' w' = unread t w \<and> script_len w' = script_len w"
  by (auto simp: sendLine_def unread_def script_len_def remaining_def
      split: if_splits option.splits)

lemma seekTo_scripts:
  "seekTo t sk w = (r, t', w') \<Longrightarrow> script_len w' = script_len w"
  by (auto simp: seekTo_def split: option.splits prod.splits sum.splits dest!: file_Seek_world)

lemma closeFile_scripts:
  "closeFile t w = (t', w') \<Longrightarrow>
     exists_script w' = exists_script w \<and> changes_script w' = changes_script w"
  by (auto simp: closeFile_def os_Close_def split: option.splits)

lemma BlockUntilExists_scripts:
  "BlockUntilExists t w = (r, t', w') \<Longrightarrow>
     length (exists_script w') \<le> length (exists_script w) \<and>
     changes_script w' = changes_script w"
  by (auto simp: BlockUntilExists_def Let_def
      split: if_splits list.splits exists_event.splits option.splits)

lemma reopen_loop_scripts:
  "reopen_loop t w = (r, t', w') \<Longrightarrow>
     length (exists_script w') \<le> length (exists_script w) \<and>
     changes_script w' = changes_script w"
  apply (induction t w arbitrary: r t' w' rule: reopen_loop.induct)
  apply (subst (asm) (2) reopen_loop.simps)
  apply (auto split: prod.splits sum.splits if_splits outcome.splits option.splits
      dest!: os_Open_scripts BlockUntilExists_scripts)
  apply (meson le_trans)
  done

lemma reopen_scripts:
  "reopen t w = (r, t', w') \<Longrightarrow>
     length (exists_script w') \<le> length (exists_script w) \<and>
     changes_script w' = changes_script w"
  by (auto simp: reopen_def split: prod.splits dest!: closeFile_scripts reopen_loop_scripts)

lemma file_Seek_scripts:
  "file_Seek fo off wh w = (r, fo', w') \<Longrightarrow>
     exists_script w' = exists_script w \<and> changes_script w' = changes_script w"
  by (auto simp: file_Seek_def split: option.splits prod.splits dest!: os_Seek_world)

lemma waitForChanges_progress:
  "waitForChanges t w = (Ret None, t', w') \<Longrightarrow> script_len w' < script_len w"
  unfolding waitForChanges_def ChangeEvents_def script_len_def Let_def
  by (auto split: if_splits prod.splits sum.splits option.splits list.splits
      select_event.splits outcome.splits
      dest!: file_Seek_scripts reopen_scripts)

lemma Println_scripts [simp]: "script_len (Println s w) = script_len w"
  by (simp add: Println_def script_len_def)

lemma poll_dying_Inl:
  "poll_dying offset t w = Inl (o', t', w') \<Longrightarrow> t' = t \<and> w' = w"
  by (auto simp: poll_dying_def split: if_splits)

lemma on_EOF_decreases:
  assumes "on_EOF offset line t w = Inl (o', t', w')"
  shows "script_len w' < script_len w"
proof -
  from assms have fl: "Follow (config t)"
    by (auto simp: on_EOF_def split: if_splits)
  define sk where "sk = (if Follow (config t) \<and> line \<noteq> []
               then seekTo t \<lparr>Offset = offset, Whence = 0\<rparr> (Println line w)
               else (Ret None, t, w))"
  obtain r1 t1 w1 where sk1: "sk = (r1, t1, w1)" by (cases sk) auto
  have s1: "script_len w1 = script_len w"
    using sk1 seekTo_scripts [of t "\<lparr>Offset = offset, Whence = 0\<rparr>" "Println line w" r1 t1 w1]
    by (auto simp: sk_def split: if_splits)
  obtain r2 t2 w2 where wf: "waitForChanges t1 w1 = (r2, t2, w2)"
    by (cases "waitForChanges t1 w1") auto
  from assms fl sk1 wf have "r1 = Ret None \<and> r2 = Ret None \<and> w' = w2"
    unfolding on_EOF_def wait_more_def sk_def [symmetric]
    by (auto split: outcome.splits option.splits if_splits dest!: poll_dying_Inl)
  with wf waitForChanges_progress [of t1 w1 t2 w2] s1 show ?thesis by simp
qed

lemma iteration_decreases:
  assumes "iteration offset t w = Inl (o', t', w')"
  shows "script_len w' < script_len w \<or>
         (script_len w' = script_len w \<and> unread t' w' < unread t w)"
proof -
  define tel where "tel = (if \<not> Pipe (config t) then Tell t w else (Ret (offset, None), t, w))"
  obtain r1 t1 w1 where tl1: "tel = (r1, t1, w1)" by (cases tel) auto
  have s1: "t1 = t \<and> script_len w1 = script_len w \<and> unread t w1 = unread t w"
    using tl1 Tell_same [of t w r1 t1 w1] by (auto simp: tel_def split: if_splits)
  obtain r2 t2 w2 where rl: "readLine t1 w1 = (r2, t2, w2)"
    by (cases "readLine t1 w1") auto
  note s2 = readLine_scripts [OF rl]
  from assms tl1 rl obtain off1 line eo where r12: "r1 = Ret (off1, None)" "r2 = Ret (line, eo)"
    unfolding iteration_def tel_def [symmetric]
    by (auto split: outcome.splits option.splits if_splits)
  show ?thesis
  proof (cases eo)
    case None
    obtain r3 t3 w3 where sl: "sendLine t2 line w2 = (r3, t3, w3)"
      by (cases "sendLine t2 line w2") auto
    from assms tl1 rl r12 None sl have "r3 = Ret () \<and> t' = t3 \<and> w' = w3"
      unfolding iteration_def tel_def [symmetric]
      by (auto split: outcome.splits dest!: poll_dying_Inl)
    then show ?thesis
      using sendLine_same [of t2 line w2 "()" t3 w3] sl readLine_progress [of t1 w1 line t2 w2]
        rl r12 None s1 by simp
  next
    case (Some err)
    from assms tl1 rl r12 Some have "on_EOF off1 line t2 w2 = Inl (o', t', w')"
      unfolding iteration_def tel_def [symmetric]
      by (auto split: if_splits simp: kill_return_def)
    from on_EOF_decreases [OF this] s1 s2 show ?thesis by simp
  qed
qed

text \<open>The \<open>for\<close> loop of \<open>tailFileSync\<close>.\<close>

function tailLoop :: "int \<Rightarrow> Tail \<Rightarrow> World \<Rightarrow> unit outcome \<times> Tail \<times> World" where
  "tailLoop offset t w =
     (case iteration offset t w of
        Inl (offset', t', w') \<Rightarrow> tailLoop offset' t' w'
      | Inr r \<Rightarrow> r)"
  by pat_completeness auto
termination
  by (relation "measures [\<lambda>(offset, t, w). script_len w, \<lambda>(offset, t, w). unread t w]")
    (auto dest: iteration_decreases)

declare tailLoop.simps [simp del]

text \<open>
  \<open>tailFileSync\<close> up to its return: the first open unless \<open>File\<close> has done it, the seek
  to \<open>Location\<close>, the reader, the loop.
\<close>

definition tailFileSync_body :: "Tail \<Rightarrow> World \<Rightarrow> unit outcome \<times> Tail \<times> World" where
  "tailFileSync_body t w =
     (case (if \<not> MustExist (config t) then reopen t w else (Ret None, t, w)) of
        (Ret (Some err), t1, w1) \<Rightarrow>
          (if err \<noteq> ErrDying then kill_return err t1 w1 else (Ret (), t1, w1))
      | (Ret None, t1, w1) \<Rightarrow>
          (case (case Location (config t1) of
                   None \<Rightarrow> (None, t1, w1)
                 | Some loc \<Rightarrow>
                     (case file_Seek (file' t1) (Offset loc) (Whence loc) w1 of
                        (Inl err, fo, w2) \<Rightarrow> (Some err, t1\<lparr>file' := fo\<rparr>, w2)
                      | (Inr p, fo, w2) \<Rightarrow> (None, t1\<lparr>file' := fo\<rparr>, w2))) of
             (Some err, t2, w2) \<Rightarrow>
               kill_return (Errorf (''Seek error on '' @ Filename t2 @ '': '' @ Error err)) t2 w2
           | (None, t2, w2) \<Rightarrow> tailLoop 0 (openReader t2) w2)
      | (e, t1, w1) \<Rightarrow> (stop_of e, t1, w1))"

text \<open>
  \<open>tailFileSync\<close> with its deferred calls, which run when the function returns or
  panics, \<open>close\<close> before \<open>Done\<close>; a function that blocks for ever runs neither.
\<close>

definition tailFileSync :: "Tail \<Rightarrow> World \<Rightarrow> unit outcome \<times> Tail \<times> World" where
  "tailFileSync t w =
     (case tailFileSync_body t w of
        (Block, t1, w1) \<Rightarrow> (Block, t1, w1)
      | (e, t1, w1) \<Rightarrow>
          (case close t1 w1 of
             (e2, t2, w2) \<Rightarrow>
               (case Done (tomb t2) of
                  None \<Rightarrow> (Panic, t2, w2)
                | Some tb \<Rightarrow>
                    ((if e = Panic \<or> e2 = Panic then Panic else Ret ()), t2\<lparr>tomb := tb\<rparr>, w2))))"

text \<open>
  A call of \<open>File\<close> together with the task it starts, run to its end with nothing else
  acting on the tail but the environment's turns: the error \<open>File\<close> returns, or how the
  task ended and the tail it left.
\<close>

definition tail_run ::
  "string \<Rightarrow> Config \<Rightarrow> World \<Rightarrow> (error + unit outcome \<times> Tail) \<times> World" where
  "tail_run filename cfg w =
     (case File filename cfg w of
        (Inl err, w1) \<Rightarrow> (Inl err, w1)
      | (Inr t, w1) \<Rightarrow> (case tailFileSync t w1 of (e, t', w') \<Rightarrow> (Inr (e, t'), w')))"

section \<open>Vocabulary of the properties\<close>

subsection \<open>Lines, streams and worlds\<close>

text \<open>
  The text of a file: the lines \<open>ls\<close>, each followed by a newline, then a rest \<open>frag\<close>.
\<close>

definition nl_text :: "string list \<Rightarrow> string \<Rightarrow> string" where
  "nl_text ls frag = concat (map (\<lambda>l. l @ [newline]) ls) @ frag"

text \<open>Every line on \<open>Lines\<close> has a nil \<open>Err\<close>.\<close>

definition lines_ok :: "Tail \<Rightarrow> bool" where
  "lines_ok t = list_all (\<lambda>l. Err l = None) (Lines t)"

text \<open>
  Two worlds are the same environment when they differ at most in the clock and in the
  trace of calls made; two files are the same file when they differ at most in the
  cursor. What is left to read is what the reader holds, followed by the file from its
  cursor on.
\<close>

definition same_env :: "World \<Rightarrow> World \<Rightarrow> bool" where
  "same_env w w' = (fs w' = fs w \<and> watch_err w' = watch_err w \<and>
     changes_script w' = changes_script w \<and> exists_script w' = exists_script w)"

definition same_file :: "os_File \<Rightarrow> os_File \<Rightarrow> bool" where
  "same_file f f' = (fname f' = fname f \<and> kind f' = kind f \<and> ino f' = ino f)"

definition stream :: "Reader \<Rightarrow> os_File \<Rightarrow> World \<Rightarrow> string" where
  "stream r f w = rbuf r @ drop (pos f) (inodes (fs w) (ino f))"

text \<open>
  The offset a round of the loop holds after its first step: what \<open>Tell\<close> returns, or
  under \<open>Pipe\<close> what the round started with.
\<close>

definition loop_offset :: "int \<Rightarrow> Tail \<Rightarrow> os_File \<Rightarrow> Reader \<Rightarrow> int" where
  "loop_offset offset t f r =
     (if Pipe (config t) then offset else int (pos f) - int (length (rbuf r)))"

subsection \<open>The start of a tail\<close>

text \<open>
  The tail \<open>File\<close> makes, before any open; a regular file just opened or sought; and
  where reading starts in the file object \<open>i\<close>: at its start, or where a seek to
  \<open>Location\<close> from there lands (\<open>None\<close> when that seek fails).
\<close>

definition new_tail :: "string \<Rightarrow> Config \<Rightarrow> Tail" where
  "new_tail filename cfg =
     \<lparr>Filename = filename, Lines = [], lines_closed = False, config = cfg,
      file' = None, reader = None,
      watcher = (if Poll cfg then PollingFileWatcher filename else InotifyFileWatcher filename),
      changes = None, tomb = \<lparr>dying = False, reason = None, dead = False\<rparr>\<rparr>"

definition opened :: "string \<Rightarrow> nat \<Rightarrow> nat \<Rightarrow> os_File" where
  "opened name i p = \<lparr>fname = name, kind = Regular, ino = i, pos = p\<rparr>"

definition start_pos :: "Config \<Rightarrow> FS \<Rightarrow> nat \<Rightarrow> nat option" where
  "start_pos cfg x i =
     (case Location cfg of
        None \<Rightarrow> Some 0
      | Some loc \<Rightarrow>
          (case lseek x (opened [] i 0) (Offset loc) (Whence loc) of
             Inl e \<Rightarrow> None
           | Inr p \<Rightarrow> Some p))"

text \<open>The same tail with another \<open>Location\<close> in its configuration.\<close>

definition relocate :: "SeekInfo option \<Rightarrow> Tail \<Rightarrow> Tail" where
  "relocate l t = t\<lparr>config := (config t)\<lparr>Location := l\<rparr>\<rparr>"

fun relocate_res :: "SeekInfo option \<Rightarrow> 'a \<times> Tail \<times> World \<Rightarrow> 'a \<times> Tail \<times> World" where
  "relocate_res l (r, t, w) = (r, relocate l t, w)"

fun relocate_step ::
  "SeekInfo option \<Rightarrow> (int \<times> Tail \<times> World) + (unit outcome \<times> Tail \<times> World) \<Rightarrow>
     (int \<times> Tail \<times> World) + (unit outcome \<times> Tail \<times> World)" where
  "relocate_step l (Inl x) = Inl (relocate_res l x)"
| "relocate_step l (Inr x) = Inr (relocate_res l x)"

subsection \<open>A tail that waits\<close>

text \<open>
  A tail can wait when it has a file, its tomb is not dying, and the change channels are
  there or can be made (they are made at the first wait, after a \<open>Seek(0, SEEK_CUR)\<close>).
  \<open>watched\<close> and \<open>watched_world\<close> are the tail and the world as the \<open>select\<close> of
  \<open>waitForChanges\<close> then finds them, \<open>turned\<close> the world after the environment's turn.
\<close>

definition can_watch :: "Tail \<Rightarrow> os_File \<Rightarrow> World \<Rightarrow> bool" where
  "can_watch t f w =
     (file' t = Some f \<and> \<not> dying (tomb t) \<and>
      (changes t \<noteq> None \<or> (kind f \<noteq> Fifo \<and> watch_err w = None)))"

definition watched :: "Tail \<Rightarrow> Tail" where
  "watched t = (if changes t = None then t\<lparr>changes := Some NewFileChanges\<rparr> else t)"

definition watched_world :: "Tail \<Rightarrow> os_File \<Rightarrow> World \<Rightarrow> World" where
  "watched_world t f w = (if changes t = None then emit (IoSeek (fname f) 0 1) w else w)"

definition turned :: "(FS \<Rightarrow> FS) \<Rightarrow> World \<Rightarrow> World" where
  "turned chg w = w\<lparr>fs := chg (fs w), changes_script := tl (changes_script w)\<rparr>"

text \<open>The same tail with \<open>ReOpen\<close> set or unset.\<close>

definition with_ReOpen :: "bool \<Rightarrow> Tail \<Rightarrow> Tail" where
  "with_ReOpen b t = t\<lparr>config := (config t)\<lparr>ReOpen := b\<rparr>\<rparr>"

text \<open>The tail with the half line put back: the cursor at the offset, nothing buffered.\<close>

definition rewound :: "Tail \<Rightarrow> os_File \<Rightarrow> nat \<Rightarrow> Tail" where
  "rewound t f n = t\<lparr>reader := Some NewReader, file' := Some (f\<lparr>pos := n\<rparr>)\<rparr>"

subsection \<open>The change channels from outside\<close>

text \<open>
  A channel as \<open>NewFileChanges\<close> makes it and nothing has closed it: no buffer, so nothing
  is ever queued in it.
\<close>

definition unbuffered :: "chan \<Rightarrow> bool" where
  "unbuffered ch = (cap ch = 0 \<and> queue ch = [] \<and> \<not> closed ch)"

definition all_unbuffered :: "FileChanges \<Rightarrow> bool" where
  "all_unbuffered fc =
     (unbuffered (chModified fc) \<and> unbuffered (chTruncated fc) \<and> unbuffered (chDeleted fc))"

text \<open>
  What happens to the change channels from outside the engine's loop: a notification of
  one of the three kinds, or the consumer coming to wait on the three channels or
  leaving them (the numbers of waiting receivers change). \<open>fc_run\<close> lets a list of these
  happen in order and stops at the first that blocks or panics.
\<close>

datatype fc_op = DoNotifyModified | DoNotifyTruncated | DoNotifyDeleted | Waiting nat nat nat

fun fc_step :: "fc_op \<Rightarrow> FileChanges \<Rightarrow> FileChanges outcome" where
  "fc_step DoNotifyModified fc = NotifyModified fc"
| "fc_step DoNotifyTruncated fc = NotifyTruncated fc"
| "fc_step DoNotifyDeleted fc = NotifyDeleted fc"
| "fc_step (Waiting m t d) fc =
     Ret (fc\<lparr>chModified := (chModified fc)\<lparr>receivers := m\<rparr>,
             chTruncated := (chTruncated fc)\<lparr>receivers := t\<rparr>,
             chDeleted := (chDeleted fc)\<lparr>receivers := d\<rparr>\<rparr>)"

fun fc_run :: "fc_op list \<Rightarrow> FileChanges \<Rightarrow> FileChanges outcome" where
  "fc_run [] fc = Ret fc"
| "fc_run (x # xs) fc =
     (case fc_step x fc of Ret fc' \<Rightarrow> fc_run xs fc' | Block \<Rightarrow> Block | Panic \<Rightarrow> Panic)"

subsection \<open>Concrete tails and worlds\<close>

text \<open>
  An empty world, on a file system without holes that takes every offset an \<open>int64\<close>
  can hold; a world with one regular file, \<open>log\<close>, of the given content; the same with
  one turn of the environment that changes nothing and sends a signal; the turn that
  appends a newline to every file, and the turn that takes away the right to open
  \<open>log\<close>.
\<close>

definition world0 :: World where
  "world0 = \<lparr>fs = \<lparr>paths = (\<lambda>p. Absent), inodes = (\<lambda>i. []), holes = (\<lambda>i p. False),
                     maxbytes = 9223372036854775807\<rparr>,
              trace = [], clock = 0,
              watch_err = None, changes_script = [], exists_script = []\<rparr>"

definition wfile :: "string \<Rightarrow> World" where
  "wfile c =
     world0\<lparr>fs := \<lparr>paths = (\<lambda>p. if p = ''log'' then Node Regular 0 else Absent),
                   inodes = (\<lambda>i. if i = 0 then c else []), holes = (\<lambda>i p. False),
                   maxbytes = 9223372036854775807\<rparr>\<rparr>"

definition wt_script :: "string \<Rightarrow> select_event \<Rightarrow> World" where
  "wt_script c ev = (wfile c)\<lparr>changes_script := [(\<lambda>x. x, ev)]\<rparr>"

definition append_newline :: "FS \<Rightarrow> FS" where
  "append_newline x = x\<lparr>inodes := (\<lambda>i. inodes x i @ [newline])\<rparr>"

definition no_access :: "FS \<Rightarrow> FS" where
  "no_access x = x\<lparr>paths := (\<lambda>p. if p = ''log'' then NoAccess else paths x p)\<rparr>"

text \<open>
  Configurations: nothing set; \<open>MustExist\<close> alone; a \<open>Location\<close> at an offset from the
  start; a \<open>Location\<close> with any \<open>whence\<close>.
\<close>

definition cfg0 :: Config where
  "cfg0 = \<lparr>Location = None, ReOpen = False, MustExist = False, Poll = False,
            Pipe = False, Follow = False\<rparr>"

definition cfg_must :: Config where
  "cfg_must = \<lparr>Location = None, ReOpen = False, MustExist = True, Poll = False,
                Pipe = False, Follow = False\<rparr>"

definition cfg_loc :: "int \<Rightarrow> Config" where
  "cfg_loc n = cfg0\<lparr>Location := Some \<lparr>Offset = n, Whence = 0\<rparr>\<rparr>"

definition cfg_seek :: "int \<Rightarrow> int \<Rightarrow> Config" where
  "cfg_seek n wh = cfg0\<lparr>Location := Some \<lparr>Offset = n, Whence = wh\<rparr>\<rparr>"

text \<open>
  A tail with \<open>Follow\<close> in the middle of its work: of the file \<open>log\<close> it has read three
  bytes, and the reader still holds the last of them, \<open>b\<close>. Its file, the same tail
  with \<open>Pipe\<close> set, and the same tail when \<open>log\<close> is a pipe.
\<close>

definition file0 :: os_File where
  "file0 = \<lparr>fname = ''log'', kind = Regular, ino = 0, pos = 3\<rparr>"

definition tail0 :: Tail where
  "tail0 = \<lparr>Filename = ''log'', Lines = [], lines_closed = False,
             config = \<lparr>Location = None, ReOpen = False, MustExist = False, Poll = False,
                        Pipe = False, Follow = True\<rparr>,
             file' = Some \<lparr>fname = ''log'', kind = Regular, ino = 0, pos = 3\<rparr>,
             reader = Some \<lparr>rbuf = ''b''\<rparr>,
             watcher = InotifyFileWatcher ''log'', changes = None,
             tomb = \<lparr>dying = False, reason = None, dead = False\<rparr>\<rparr>"

definition tail_pipe :: Tail where
  "tail_pipe = tail0\<lparr>config := (config tail0)\<lparr>Pipe := True\<rparr>\<rparr>"

definition tail_fifo :: Tail where
  "tail_fifo = tail_pipe\<lparr>file' := Some \<lparr>fname = ''log'', kind = Fifo, ino = 0, pos = 3\<rparr>\<rparr>"

section \<open>Properties\<close>

subsection \<open>Configuration check of \<open>File\<close>\<close>

text \<open>
  C5. \<open>File\<close> called with \<open>ReOpen\<close> set and \<open>Follow\<close> unset returns \<open>ErrInvalidConfig\<close> and
  leaves the world as it found it: nothing was opened, printed or read, and no task was
  started. No other configuration is answered with \<open>ErrInvalidConfig\<close>.
\<close>

theorem File_invalid_config:
  "(ReOpen cfg \<and> \<not> Follow cfg \<longrightarrow> File filename cfg w = (Inl ErrInvalidConfig, w)) \<and>
   (\<not> (ReOpen cfg \<and> \<not> Follow cfg) \<longrightarrow> fst (File filename cfg w) \<noteq> Inl ErrInvalidConfig)"
  by (auto simp: File_def os_Open_def Let_def split: node.splits)

theorem File_invalid_config_witness:
  "File ''log'' \<lparr>Location = None, ReOpen = True, MustExist = True, Poll = False,
                   Pipe = False, Follow = False\<rparr> world0 = (Inl ErrInvalidConfig, world0) \<and>
   fst (File ''log'' \<lparr>Location = None, ReOpen = True, MustExist = True, Poll = False,
                   Pipe = False, Follow = True\<rparr> world0) \<noteq> Inl ErrInvalidConfig"
  using File_invalid_config [of "\<lparr>Location = None, ReOpen = True, MustExist = True, Poll = False,
                   Pipe = False, Follow = False\<rparr>" "''log''" world0]
    File_invalid_config [of "\<lparr>Location = None, ReOpen = True, MustExist = True, Poll = False,
                   Pipe = False, Follow = True\<rparr>" "''log''" world0]
  by simp

subsection \<open>\<open>Tell\<close>\<close>

text \<open>
  C8, as the claim states it, for every tail: on a pipe the file has no cursor to
  report; the seek inside \<open>Tell\<close> fails, and \<open>Tell\<close> returns offset zero together with
  the error of the seek, here for a tail that has taken three bytes out of the pipe and
  still holds one of them.
\<close>

theorem Tell_pipe_counterexample:
  "file' tail_fifo = Some \<lparr>fname = ''log'', kind = Fifo, ino = 0, pos = 3\<rparr> \<and>
   reader tail_fifo = Some \<lparr>rbuf = ''b''\<rparr> \<and>
   fst (Tell tail_fifo world0) = Ret (0, Some (PathError ''seek'' ''log'' ESPIPE)) \<and>
   fst (Tell tail_fifo world0) \<noteq> Ret (3 - 1, None)"
  by (simp add: tail_fifo_def tail_pipe_def tail0_def Tell_def os_Seek_def lseek_cur)

text \<open>
  C8, amended. Without an open file \<open>Tell\<close> returns offset zero and no error, and touches
  nothing. With an open file and a reader, \<open>Tell\<close> asks the file for its cursor by a
  \<open>Seek(0, SEEK_CUR)\<close>: a file that can seek (anything but a pipe) answers, and \<open>Tell\<close>
  returns the cursor less the number of bytes the reader holds unconsumed, with no
  error; a pipe does not, and \<open>Tell\<close> returns offset zero and the error of the seek. The
  tail is as before.
\<close>

theorem Tell_offset:
  "(file' t = None \<longrightarrow> Tell t w = (Ret (0, None), t, w)) \<and>
   (\<forall>f r. file' t = Some f \<and> reader t = Some r \<longrightarrow>
      Tell t w =
        (Ret (if kind f = Fifo then (0, Some (PathError ''seek'' (fname f) ESPIPE))
              else (int (pos f) - int (length (rbuf r)), None)),
         t, emit (IoSeek (fname f) 0 1) w))"
  by (auto simp: Tell_def os_Seek_def lseek_cur Let_def)

theorem Tell_offset_witness:
  "Tell (tail0\<lparr>file' := None\<rparr>) world0 = (Ret (0, None), tail0\<lparr>file' := None\<rparr>, world0) \<and>
   Tell tail0 world0 = (Ret (2, None), tail0, emit (IoSeek ''log'' 0 1) world0) \<and>
   Tell tail_fifo world0 =
     (Ret (0, Some (PathError ''seek'' ''log'' ESPIPE)), tail_fifo, emit (IoSeek ''log'' 0 1) world0)"
  using Tell_offset [of "tail0\<lparr>file' := None\<rparr>" world0] Tell_offset [of tail0 world0]
    Tell_offset [of tail_fifo world0]
  by (simp add: tail0_def tail_fifo_def tail_pipe_def)

text \<open>
  The tail \<open>File\<close> returns under \<open>MustExist\<close> has its file and, until its task has made
  one, no reader; the model shows what a call of \<open>Tell\<close> does on it.
\<close>

lemma Tell_without_reader:
  "file' t = Some f \<Longrightarrow> kind f \<noteq> Fifo \<Longrightarrow> reader t = None \<Longrightarrow> fst (Tell t w) = Panic"
  by (simp add: Tell_def os_Seek_def lseek_cur)

subsection \<open>\<open>File\<close> with \<open>MustExist\<close> on a path that is not there\<close>

text \<open>
  C6, as the claim states it: the error \<open>File\<close> returns would be \<open>ErrFileOpen\<close>. It is the
  error of \<open>os.Open\<close>, handed back as it came.
\<close>

theorem File_MustExist_not_ErrFileOpen:
  "fst (File ''log'' cfg_must world0) = Inl (PathError ''open'' ''log'' ENOENT) \<and>
   fst (File ''log'' cfg_must world0) \<noteq> Inl ErrFileOpen"
  by (simp add: File_def cfg_must_def world0_def os_Open_def Println_def emit_def)

text \<open>
  C6, amended. With \<open>MustExist\<close> set, a configuration that passes the check of \<open>ReOpen\<close>
  against \<open>Follow\<close>, and a path that names nothing, \<open>File\<close> fails at once: it returns the
  error of \<open>os.Open\<close> itself, one for which \<open>os.IsNotExist\<close> holds, and all it has done is
  print the file name and try the open. No task was started.
\<close>

theorem File_MustExist_absent:
  "MustExist cfg \<and> \<not> (ReOpen cfg \<and> \<not> Follow cfg) \<and> paths (fs w) filename = Absent \<longrightarrow>
     File filename cfg w =
       (Inl (PathError ''open'' filename ENOENT),
        w\<lparr>trace := trace w @ [IoPrint filename, IoOpen filename]\<rparr>) \<and>
     IsNotExist (PathError ''open'' filename ENOENT)"
  by (auto simp: File_def os_Open_def Println_def emit_def Let_def)

theorem File_MustExist_absent_witness:
  "File ''log'' cfg_must world0 =
       (Inl (PathError ''open'' ''log'' ENOENT),
        world0\<lparr>trace := [IoPrint ''log'', IoOpen ''log'']\<rparr>)"
  using File_MustExist_absent [of cfg_must world0 "''log''"]
  by (simp add: cfg_must_def world0_def)

subsection \<open>The error field of the lines delivered\<close>

lemma readLine_Lines: "readLine t w = (r, t', w') \<Longrightarrow> Lines t' = Lines t"
  by (auto simp: readLine_def split: option.splits prod.splits outcome.splits)

lemma sendLine_lines_ok: "sendLine t line w = (r, t', w') \<Longrightarrow> lines_ok t \<Longrightarrow> lines_ok t'"
  by (auto simp: sendLine_def lines_ok_def split: if_splits)

lemma seekTo_Lines: "seekTo t sk w = (r, t', w') \<Longrightarrow> Lines t' = Lines t"
  by (auto simp: seekTo_def split: option.splits prod.splits sum.splits)

lemma kill_return_Lines: "kill_return err t w = (r, t', w') \<Longrightarrow> Lines t' = Lines t"
  by (auto simp: kill_return_def split: option.splits)

lemma closeFile_Lines: "closeFile t w = (t', w') \<Longrightarrow> Lines t' = Lines t"
  by (auto simp: closeFile_def split: option.splits)

lemma BlockUntilExists_Lines: "BlockUntilExists t w = (r, t', w') \<Longrightarrow> Lines t' = Lines t"
  by (auto simp: BlockUntilExists_def Let_def
      split: if_splits list.splits exists_event.splits option.splits)

lemma reopen_loop_Lines: "reopen_loop t w = (r, t', w') \<Longrightarrow> Lines t' = Lines t"
  apply (induction t w rule: reopen_loop.induct)
  apply (subst (asm) (2) reopen_loop.simps)
  apply (auto split: prod.splits sum.splits if_splits outcome.splits option.splits
      dest!: BlockUntilExists_Lines)
  done

lemma reopen_Lines: "reopen t w = (r, t', w') \<Longrightarrow> Lines t' = Lines t"
  by (auto simp: reopen_def split: prod.splits dest!: closeFile_Lines reopen_loop_Lines)

lemma waitForChanges_Lines: "waitForChanges t w = (r, t', w') \<Longrightarrow> Lines t' = Lines t"
  unfolding waitForChanges_def ChangeEvents_def Let_def openReader_def
  by (auto split: if_splits prod.splits sum.splits option.splits list.splits
      select_event.splits outcome.splits dest!: reopen_Lines)

lemma poll_dying_same:
  "poll_dying offset t w = Inl (o', t', w') \<Longrightarrow> t' = t"
  "poll_dying offset t w = Inr (e, t', w') \<Longrightarrow> t' = t"
  by (auto simp: poll_dying_def split: if_splits)

lemma on_EOF_lines_ok:
  assumes "on_EOF offset line t w = Inl (o', t', w') \<or> on_EOF offset line t w = Inr (e, t', w')"
    and "lines_ok t"
  shows "lines_ok t'"
proof (cases "Follow (config t)")
  case False
  then show ?thesis using assms
    by (auto simp: on_EOF_def split: if_splits dest: sendLine_lines_ok)
next
  case True
  define sk where "sk = (if Follow (config t) \<and> line \<noteq> []
               then seekTo t \<lparr>Offset = offset, Whence = 0\<rparr> (Println line w)
               else (Ret None, t, w))"
  obtain r1 t1 w1 where sk1: "sk = (r1, t1, w1)" by (cases sk) auto
  have l1: "Lines t1 = Lines t"
    using sk1 seekTo_Lines [of t "\<lparr>Offset = offset, Whence = 0\<rparr>" "Println line w" r1 t1 w1]
    by (auto simp: sk_def split: if_splits)
  obtain r2 t2 w2 where wf: "waitForChanges t1 w1 = (r2, t2, w2)"
    by (cases "waitForChanges t1 w1") auto
  note l2 = waitForChanges_Lines [OF wf]
  from assms(1) True sk1 wf have "Lines t' = Lines t1 \<or> Lines t' = Lines t2"
    unfolding on_EOF_def wait_more_def sk_def [symmetric]
    by (auto split: outcome.splits option.splits if_splits
        dest!: poll_dying_same kill_return_Lines)
  with l1 l2 assms(2) show ?thesis by (auto simp: lines_ok_def)
qed

lemma iteration_lines_ok:
  assumes "iteration offset t w = Inl (o', t', w') \<or> iteration offset t w = Inr (e, t', w')"
    and "lines_ok t"
  shows "lines_ok t'"
proof -
  define tel where "tel = (if \<not> Pipe (config t) then Tell t w else (Ret (offset, None), t, w))"
  obtain r1 t1 w1 where tl1: "tel = (r1, t1, w1)" by (cases tel) auto
  have s1: "t1 = t"
    using tl1 Tell_same [of t w r1 t1 w1] by (auto simp: tel_def split: if_splits)
  obtain r2 t2 w2 where rl: "readLine t1 w1 = (r2, t2, w2)"
    by (cases "readLine t1 w1") auto
  have ok2: "lines_ok t2" using readLine_Lines [OF rl] s1 assms(2) by (simp add: lines_ok_def)
  have ok1: "lines_ok t1" using s1 assms(2) by simp
  show ?thesis
  proof (cases "\<exists>off1 line eo. r1 = Ret (off1, None) \<and> r2 = Ret (line, eo)")
    case False
    then have "t' = t1 \<or> t' = t2 \<or> (\<exists>err x. kill_return err t1 w1 = (x, t', w'))"
      using assms(1) tl1 rl unfolding iteration_def tel_def [symmetric]
      by (auto split: outcome.splits option.splits if_splits prod.splits)
    then show ?thesis using ok1 ok2 by (auto simp: lines_ok_def dest!: kill_return_Lines)
  next
    case True
    then obtain off1 line eo where r12: "r1 = Ret (off1, None)" "r2 = Ret (line, eo)" by auto
    show ?thesis
    proof (cases eo)
      case None
      obtain r3 t3 w3 where sl: "sendLine t2 line w2 = (r3, t3, w3)"
        by (cases "sendLine t2 line w2") auto
      from assms(1) tl1 rl r12 None sl have "t' = t3"
        unfolding iteration_def tel_def [symmetric]
        by (auto split: outcome.splits dest!: poll_dying_same)
      then show ?thesis using sendLine_lines_ok [OF sl ok2] by simp
    next
      case (Some err)
      show ?thesis
      proof (cases "err = EOF")
        case True
        with assms(1) tl1 rl r12 Some
        have "on_EOF off1 line t2 w2 = Inl (o', t', w') \<or> on_EOF off1 line t2 w2 = Inr (e, t', w')"
          unfolding iteration_def tel_def [symmetric] by auto
        from on_EOF_lines_ok [OF this ok2] show ?thesis .
      next
        case False
        with assms(1) tl1 rl r12 Some
        have "\<exists>err x. kill_return err t2 w2 = (x, t', w')"
          unfolding iteration_def tel_def [symmetric] by auto
        then show ?thesis using ok2 by (auto simp: lines_ok_def dest!: kill_return_Lines)
      qed
    qed
  qed
qed

lemma tailLoop_lines_ok:
  "tailLoop offset t w = (e, t', w') \<Longrightarrow> lines_ok t \<Longrightarrow> lines_ok t'"
proof (induction offset t w rule: tailLoop.induct)
  case (1 offset t w)
  show ?case
  proof (cases "iteration offset t w")
    case (Inl a)
    obtain o1 t1 w1 where a: "a = (o1, t1, w1)" by (cases a) auto
    have ok: "lines_ok t1" using iteration_lines_ok [of offset t w o1 t1 w1] Inl a "1.prems" by simp
    have "tailLoop o1 t1 w1 = (e, t', w')"
      using "1.prems"(1) Inl a by (simp add: tailLoop.simps [of offset t w])
    from "1.IH" [OF Inl a [symmetric] refl this ok] show ?thesis .
  next
    case (Inr b)
    then have "iteration offset t w = Inr (e, t', w')"
      using "1.prems"(1) by (simp add: tailLoop.simps [of offset t w])
    from iteration_lines_ok [of offset t w _ t' w' e] this "1.prems"(2) show ?thesis by simp
  qed
qed

lemma tailFileSync_body_lines_ok:
  assumes "tailFileSync_body t w = (e, t', w')" and "lines_ok t"
  shows "lines_ok t'"
proof -
  define op where "op = (if \<not> MustExist (config t) then reopen t w else (Ret None, t, w))"
  obtain r1 t1 w1 where op1: "op = (r1, t1, w1)" by (cases op) auto
  have l1: "Lines t1 = Lines t"
    using op1 reopen_Lines [of t w r1 t1 w1] by (auto simp: op_def split: if_splits)
  show ?thesis
  proof (cases "r1 = Ret None")
    case False
    then have "t' = t1 \<or> (\<exists>err x. kill_return err t1 w1 = (x, t', w'))"
      using assms(1) op1 unfolding tailFileSync_body_def op_def [symmetric]
      by (auto split: outcome.splits option.splits if_splits)
    then show ?thesis using l1 assms(2) by (auto simp: lines_ok_def dest!: kill_return_Lines)
  next
    case True
    define sk where "sk = (case Location (config t1) of
                   None \<Rightarrow> (None, t1, w1)
                 | Some loc \<Rightarrow>
                     (case file_Seek (file' t1) (Offset loc) (Whence loc) w1 of
                        (Inl err, fo, w2) \<Rightarrow> (Some err, t1\<lparr>file' := fo\<rparr>, w2)
                      | (Inr p, fo, w2) \<Rightarrow> (None, t1\<lparr>file' := fo\<rparr>, w2)))"
    obtain r2 t2 w2 where sk2: "sk = (r2, t2, w2)" by (cases sk) auto
    have l2: "Lines t2 = Lines t1"
      using sk2 by (auto simp: sk_def split: option.splits prod.splits sum.splits)
    have "(\<exists>err x. kill_return err t2 w2 = (x, t', w')) \<or>
          tailLoop 0 (openReader t2) w2 = (e, t', w')"
      using assms(1) op1 True sk2 unfolding tailFileSync_body_def op_def [symmetric]
      by (auto simp: sk_def [symmetric] split: option.splits)
    then show ?thesis
    proof
      assume "\<exists>err x. kill_return err t2 w2 = (x, t', w')"
      then show ?thesis using l1 l2 assms(2) by (auto simp: lines_ok_def dest!: kill_return_Lines)
    next
      assume "tailLoop 0 (openReader t2) w2 = (e, t', w')"
      moreover have "lines_ok (openReader t2)"
        using l1 l2 assms(2) by (simp add: lines_ok_def openReader_def)
      ultimately show ?thesis by (rule tailLoop_lines_ok)
    qed
  qed
qed

lemma close_Lines: "close t w = (r, t', w') \<Longrightarrow> Lines t' = Lines t"
  by (auto simp: close_def closeFile_def split: if_splits option.splits)

lemma tailFileSync_lines_ok:
  assumes "tailFileSync t w = (e, t', w')" and "lines_ok t"
  shows "lines_ok t'"
proof -
  obtain e1 t1 w1 where b: "tailFileSync_body t w = (e1, t1, w1)"
    by (cases "tailFileSync_body t w") auto
  note ok1 = tailFileSync_body_lines_ok [OF b assms(2)]
  obtain e2 t2 w2 where c: "close t1 w1 = (e2, t2, w2)" by (cases "close t1 w1") auto
  from assms(1) b c have "Lines t' = Lines t1 \<or> Lines t' = Lines t2"
    unfolding tailFileSync_def by (auto split: outcome.splits option.splits)
  then show ?thesis using ok1 close_Lines [OF c] by (auto simp: lines_ok_def)
qed

lemma File_Lines: "File filename cfg w = (Inr t, w') \<Longrightarrow> Lines t = []"
  by (auto simp: File_def Let_def split: if_splits prod.splits sum.splits)

text \<open>
  C10. Whatever the configuration, the file system and the turns of the environment, and
  however the task ends (it returns, blocks or panics), every line that \<open>File\<close> and its
  task have put on \<open>Lines\<close> has a nil \<open>Err\<close>; so has every line \<open>NewLine\<close> makes.
\<close>

theorem delivered_lines_no_error:
  "(tail_run filename cfg w = (Inr (e, t), w') \<longrightarrow> list_all (\<lambda>l. Err l = None) (Lines t)) \<and>
   Err (fst (NewLine text w)) = None"
proof -
  have "list_all (\<lambda>l. Err l = None) (Lines t)" if "tail_run filename cfg w = (Inr (e, t), w')"
  proof -
    from that obtain t0 w0 where f: "File filename cfg w = (Inr t0, w0)"
      and r: "tailFileSync t0 w0 = (e, t, w')"
      unfolding tail_run_def by (auto split: prod.splits sum.splits)
    have "lines_ok t0" using File_Lines [OF f] by (simp add: lines_ok_def)
    from tailFileSync_lines_ok [OF r this] show ?thesis by (simp add: lines_ok_def)
  qed
  then show ?thesis by (simp add: NewLine_def)
qed

lemma run_ex_not_isl: "\<not> isl (fst (tail_run ''log'' cfg0 (wfile (nl_text [''a'', ''b''] []))))"
  by code_simp

lemma run_ex_Lines:
  "map Text (Lines (snd (projr (fst (tail_run ''log'' cfg0 (wfile (nl_text [''a'', ''b''] []))))))) =
     [''a'', ''b'']"
  by code_simp

lemma Inr_run_eq:
  "\<not> isl (fst X) \<Longrightarrow> X = (Inr (fst (projr (fst X)), snd (projr (fst X))), snd X)"
  by (cases X; cases "fst X") auto

theorem delivered_lines_no_error_witness:
  "list_all (\<lambda>l. Err l = None)
     (Lines (snd (projr (fst (tail_run ''log'' cfg0 (wfile (nl_text [''a'', ''b''] []))))))) \<and>
   map Text (Lines (snd (projr (fst (tail_run ''log'' cfg0 (wfile (nl_text [''a'', ''b''] []))))))) =
     [''a'', ''b'']"
  using delivered_lines_no_error [of "''log''" cfg0 "wfile (nl_text [''a'', ''b''] [])"
      "fst (projr (fst (tail_run ''log'' cfg0 (wfile (nl_text [''a'', ''b''] [])))))"
      "snd (projr (fst (tail_run ''log'' cfg0 (wfile (nl_text [''a'', ''b''] [])))))"
      "snd (tail_run ''log'' cfg0 (wfile (nl_text [''a'', ''b''] [])))"]
    Inr_run_eq [OF run_ex_not_isl] run_ex_Lines
  by simp

subsection \<open>Reading lines off the stream\<close>

lemma same_env_refl [simp]: "same_env w w"
  by (simp add: same_env_def)

lemma same_env_emit [simp]: "same_env w (emit e w)"
  by (simp add: same_env_def)

lemma same_env_trans: "same_env w w1 \<Longrightarrow> same_env w1 w2 \<Longrightarrow> same_env w w2"
  by (simp add: same_env_def)

lemma split_delim_None: "split_delim d s = None \<longleftrightarrow> d \<notin> set s"
  by (simp add: split_delim_def)

lemma split_delim_Some:
  "d \<in> set s \<Longrightarrow>
     split_delim d s = Some (takeWhile (\<lambda>c. c \<noteq> d) s @ [d], tl (dropWhile (\<lambda>c. c \<noteq> d) s))"
  by (simp add: split_delim_def)

lemma takeWhile_notin:
  "d \<notin> set xs \<Longrightarrow> takeWhile (\<lambda>c. c \<noteq> d) (xs @ ys) = xs @ takeWhile (\<lambda>c. c \<noteq> d) ys"
  by (induction xs) auto

lemma dropWhile_notin:
  "d \<notin> set xs \<Longrightarrow> dropWhile (\<lambda>c. c \<noteq> d) (xs @ ys) = dropWhile (\<lambda>c. c \<noteq> d) ys"
  by (induction xs) auto

lemma take_drop_chunk: "take n xs @ drop (length (take n xs)) xs = xs"
  by (metis append_take_drop_id length_take min_def take_all_iff drop_all order_refl append_Nil2)

lemma ReadString_stream:
  assumes "kind f = Regular"
  shows "\<exists>r' f' w'. ReadString d acc r (Some f) w =
           (Ret (if d \<in> set (stream r f w)
                 then (acc @ takeWhile (\<lambda>c. c \<noteq> d) (stream r f w) @ [d], None)
                 else (acc @ stream r f w, Some EOF)), r', Some f', w') \<and>
         stream r' f' w' =
           (if d \<in> set (stream r f w) then tl (dropWhile (\<lambda>c. c \<noteq> d) (stream r f w)) else []) \<and>
         (d \<notin> set (stream r f w) \<longrightarrow> rbuf r' = []) \<and>
         (length (rbuf r) \<le> pos f \<longrightarrow> length (rbuf r') \<le> pos f') \<and>
         pos f' \<le> max (pos f) (length (inodes (fs w) (ino f))) \<and>
         same_file f f' \<and> same_env w w'"
  using assms
proof (induction d acc r "Some f" w arbitrary: f rule: ReadString.induct)
  case (1 d acc r w f)
  let ?c = "inodes (fs w) (ino f)"
  show ?case
  proof (cases "d \<in> set (rbuf r)")
    case True
    then show ?thesis
      by (simp add: ReadString.simps [of d acc r "Some f" w] split_delim_Some stream_def
          takeWhile_append1 dropWhile_append1 same_file_def)
        (metis (no_types, lifting) trans_le_add1 Nitpick.size_list_simp(2) dropWhile_eq_Nil_conv
          length_dropWhile_le diff_le_self le_trans)
  next
    case False
    note nb = False
    show ?thesis
    proof (cases "drop (pos f) ?c = []")
      case True
      then show ?thesis using nb
        by (simp add: ReadString.simps [of d acc r "Some f" w] split_delim_def stream_def
            file_Read_def os_Read_def Let_def \<open>kind f = Regular\<close> same_file_def)
    next
      case False
      define data where "data = take defaultBufSize (drop (pos f) ?c)"
      define f1 where "f1 = f\<lparr>pos := pos f + length data\<rparr>"
      define w1 where "w1 = emit (IoRead (fname f) defaultBufSize) w"
      have dne: "data \<noteq> []" using False by (simp add: data_def defaultBufSize_def)
      have rd: "file_Read (Some f) defaultBufSize w = (Ret (Inr data), Some f1, w1)"
        using dne \<open>kind f = Regular\<close>
        by (simp add: file_Read_def os_Read_def Let_def data_def f1_def w1_def)
      have st: "stream (r\<lparr>rbuf := data\<rparr>) f1 w1 = drop (pos f) ?c"
        using take_drop_chunk [of defaultBufSize "drop (pos f) ?c"]
        by (simp add: stream_def f1_def w1_def data_def add.commute)
      have k1: "kind f1 = Regular" using \<open>kind f = Regular\<close> by (simp add: f1_def)
      have p1: "pos f1 \<le> length ?c" using False by (simp add: f1_def data_def)
      have c1: "inodes (fs w1) (ino f1) = ?c" by (simp add: f1_def w1_def)
      have step: "ReadString d acc r (Some f) w = ReadString d (acc @ rbuf r) (r\<lparr>rbuf := data\<rparr>) (Some f1) w1"
        using nb rd by (simp add: ReadString.simps [of d acc r "Some f" w] split_delim_def)
      have sfull: "stream r f w = rbuf r @ drop (pos f) ?c" by (simp add: stream_def)
      from "1.hyps" [OF _ rd [symmetric] refl refl refl k1] nb
      obtain r' f' w' where res:
        "ReadString d (acc @ rbuf r) (r\<lparr>rbuf := data\<rparr>) (Some f1) w1 =
           (Ret (if d \<in> set (drop (pos f) ?c)
                 then ((acc @ rbuf r) @ takeWhile (\<lambda>c. c \<noteq> d) (drop (pos f) ?c) @ [d], None)
                 else ((acc @ rbuf r) @ drop (pos f) ?c, Some EOF)), r', Some f', w')"
        "stream r' f' w' =
           (if d \<in> set (drop (pos f) ?c) then tl (dropWhile (\<lambda>c. c \<noteq> d) (drop (pos f) ?c)) else [])"
        "d \<notin> set (drop (pos f) ?c) \<longrightarrow> rbuf r' = []"
        "length (rbuf (r\<lparr>rbuf := data\<rparr>)) \<le> pos f1 \<longrightarrow> length (rbuf r') \<le> pos f'"
        "pos f' \<le> max (pos f1) (length (inodes (fs w1) (ino f1)))"
        "same_file f1 f'" "same_env w1 w'"
        unfolding st split_delim_None by (auto simp: split_delim_def)
      have "length (rbuf r') \<le> pos f'" using res(4) by (simp add: f1_def)
      moreover have "same_file f f'" using res(6) by (simp add: same_file_def f1_def)
      moreover have "same_env w w'" using res(7) by (simp add: same_env_def w1_def)
      moreover have "pos f' \<le> max (pos f) (length ?c)" using res(5) p1 c1 by simp
      ultimately show ?thesis
        using res(1,2,3) nb unfolding step sfull
        by (simp add: takeWhile_notin dropWhile_notin)
    qed
  qed
qed

lemma dropWhile_none: "\<forall>x\<in>set xs. \<not> P x \<Longrightarrow> dropWhile P xs = xs"
  by (cases xs) auto

lemma TrimRight_line: "newline \<notin> set l \<Longrightarrow> TrimRight (l @ [newline]) [newline] = l"
proof -
  assume "newline \<notin> set l"
  then have "dropWhile (\<lambda>c. c = newline) (rev l) = rev l"
    by (intro dropWhile_none) auto
  then show ?thesis by (simp add: TrimRight_def)
qed

lemma takeWhile_line:
  "d \<notin> set l \<Longrightarrow> takeWhile (\<lambda>c. c \<noteq> d) (l @ d # rest) = l"
  by (simp add: takeWhile_notin)

lemma dropWhile_line:
  "d \<notin> set l \<Longrightarrow> tl (dropWhile (\<lambda>c. c \<noteq> d) (l @ d # rest)) = rest"
  by (simp add: dropWhile_notin)

lemma readLine_line:
  assumes "file' t = Some f" "kind f = Regular" "reader t = Some r"
    and "stream r f w = l @ newline # rest" "newline \<notin> set l"
  shows "\<exists>r' f' w'. readLine t w = (Ret (l, None), t\<lparr>reader := Some r', file' := Some f'\<rparr>, w') \<and>
           stream r' f' w' = rest \<and> (length (rbuf r) \<le> pos f \<longrightarrow> length (rbuf r') \<le> pos f') \<and>
           pos f' \<le> max (pos f) (length (inodes (fs w) (ino f))) \<and>
           same_file f f' \<and> same_env w w'"
proof -
  from ReadString_stream [OF assms(2), of newline "[]" r w]
  obtain r' f' w' where rs:
    "ReadString newline [] r (Some f) w = (Ret (l @ [newline], None), r', Some f', w')"
    "stream r' f' w' = rest" "length (rbuf r) \<le> pos f \<longrightarrow> length (rbuf r') \<le> pos f'"
    "same_file f f'" "same_env w w'" "pos f' \<le> max (pos f) (length (inodes (fs w) (ino f)))"
    using assms(4,5) by (auto simp: takeWhile_line dropWhile_line)
  have "readLine t w = (Ret (l, None), t\<lparr>reader := Some r', file' := Some f'\<rparr>, w')"
    using assms(1,3,5) rs(1) by (simp add: readLine_def TrimRight_line)
  with rs show ?thesis by blast
qed

lemma readLine_eof:
  assumes "file' t = Some f" "kind f = Regular" "reader t = Some r"
    and "newline \<notin> set (stream r f w)"
  shows "\<exists>r' f' w'. readLine t w =
             (Ret (stream r f w, Some EOF), t\<lparr>reader := Some r', file' := Some f'\<rparr>, w') \<and>
           rbuf r' = [] \<and> stream r' f' w' = [] \<and>
           (length (rbuf r) \<le> pos f \<longrightarrow> length (rbuf r') \<le> pos f') \<and>
           pos f' \<le> max (pos f) (length (inodes (fs w) (ino f))) \<and>
           same_file f f' \<and> same_env w w'"
proof -
  from ReadString_stream [OF assms(2), of newline "[]" r w]
  obtain r' f' w' where rs:
    "ReadString newline [] r (Some f) w = (Ret (stream r f w, Some EOF), r', Some f', w')"
    "stream r' f' w' = []" "rbuf r' = []" "length (rbuf r) \<le> pos f \<longrightarrow> length (rbuf r') \<le> pos f'"
    "same_file f f'" "same_env w w'" "pos f' \<le> max (pos f) (length (inodes (fs w) (ino f)))"
    using assms(4) by auto
  have "readLine t w = (Ret (stream r f w, Some EOF), t\<lparr>reader := Some r', file' := Some f'\<rparr>, w')"
    using assms(1,3) rs(1) by (simp add: readLine_def)
  with rs show ?thesis by blast
qed

text \<open>The offset the loop holds after its first step: \<open>Tell\<close>, or what it had.\<close>

lemma Tell_regular:
  assumes "file' t = Some f" "kind f = Regular" "reader t = Some r"
  shows "Tell t w = (Ret (int (pos f) - int (length (rbuf r)), None), t, emit (IoSeek (fname f) 0 1) w)"
  using assms by (simp add: Tell_def os_Seek_def lseek_cur Let_def)

lemma iteration_line:
  assumes "file' t = Some f" "kind f = Regular" "reader t = Some r"
    and "\<not> lines_closed t" "\<not> dying (tomb t)"
    and "stream r f w = l @ newline # rest" "newline \<notin> set l"
  shows "\<exists>r' f' L' w'. iteration offset t w =
             Inl (loop_offset offset t f r, t\<lparr>reader := Some r', file' := Some f', Lines := L'\<rparr>, w') \<and>
           map Text L' = map Text (Lines t) @ [l] \<and>
           stream r' f' w' = rest \<and> (length (rbuf r) \<le> pos f \<longrightarrow> length (rbuf r') \<le> pos f') \<and>
           pos f' \<le> max (pos f) (length (inodes (fs w) (ino f))) \<and>
           same_file f f' \<and> same_env w w'"
proof -
  define w0 where "w0 = (if Pipe (config t) then w else emit (IoSeek (fname f) 0 1) w)"
  have tel: "(if \<not> Pipe (config t) then Tell t w else (Ret (offset, None), t, w)) =
             (Ret (loop_offset offset t f r, None), t, w0)"
    using Tell_regular [OF assms(1,2,3), of w] by (simp add: loop_offset_def w0_def)
  have e0: "same_env w w0" by (simp add: w0_def)
  have st0: "stream r f w0 = l @ newline # rest"
    using assms(6) by (simp add: stream_def w0_def)
  have fs0: "fs w0 = fs w" by (simp add: w0_def)
  from readLine_line [OF assms(1,2,3) st0 assms(7)]
  obtain r' f' w1 where rl:
    "readLine t w0 = (Ret (l, None), t\<lparr>reader := Some r', file' := Some f'\<rparr>, w1)"
    "stream r' f' w1 = rest" "length (rbuf r) \<le> pos f \<longrightarrow> length (rbuf r') \<le> pos f'"
    "same_file f f'" "same_env w0 w1" "pos f' \<le> max (pos f) (length (inodes (fs w) (ino f)))"
    unfolding fs0 by auto
  define L' where "L' = Lines t @ [\<lparr>Text = l, Time = clock w1, Err = None\<rparr>]"
  define w2 where "w2 = w1\<lparr>clock := Suc (clock w1)\<rparr>"
  have "iteration offset t w =
          Inl (loop_offset offset t f r, t\<lparr>reader := Some r', file' := Some f', Lines := L'\<rparr>, w2)"
    unfolding iteration_def tel using rl(1) assms(4,5)
    by (simp add: sendLine_def poll_dying_def L'_def w2_def)
  moreover have "stream r' f' w2 = rest" using rl(2) by (simp add: stream_def w2_def)
  moreover have "same_env w w2" using e0 rl(5) by (simp add: same_env_def w2_def)
  moreover have "map Text L' = map Text (Lines t) @ [l]" by (simp add: L'_def)
  ultimately show ?thesis using rl(3,4,6) by blast
qed

lemma Tail_same: "reader t = Some r \<Longrightarrow> file' t = Some f \<Longrightarrow>
   t\<lparr>reader := Some r, file' := Some f, Lines := Lines t\<rparr> = t"
  by simp

lemma same_file_refl [simp]: "same_file f f"
  by (simp add: same_file_def)

lemma same_file_trans: "same_file f f1 \<Longrightarrow> same_file f1 f2 \<Longrightarrow> same_file f f2"
  by (simp add: same_file_def)

text \<open>The reading phase: the loop hands out the whole lines that are there to read.\<close>

lemma tailLoop_read_lines:
  assumes "file' t = Some f" "kind f = Regular" "reader t = Some r"
    and "\<not> lines_closed t" "\<not> dying (tomb t)"
    and "stream r f w = nl_text ls frag" "\<forall>l\<in>set ls. newline \<notin> set l"
  shows "\<exists>offset' r' f' L' w'.
           tailLoop offset t w =
             tailLoop offset' (t\<lparr>reader := Some r', file' := Some f', Lines := L'\<rparr>) w' \<and>
           map Text L' = map Text (Lines t) @ ls \<and> stream r' f' w' = frag \<and>
           (length (rbuf r) \<le> pos f \<longrightarrow> length (rbuf r') \<le> pos f') \<and>
           pos f' \<le> max (pos f) (length (inodes (fs w) (ino f))) \<and>
           (Pipe (config t) \<longrightarrow> offset' = offset) \<and>
           same_file f f' \<and> same_env w w'"
  using assms
proof (induction ls arbitrary: offset t f r w)
  case Nil
  have "tailLoop offset t w = tailLoop offset (t\<lparr>reader := Some r, file' := Some f, Lines := Lines t\<rparr>) w"
    using Tail_same [OF Nil.prems(3,1)] by simp
  moreover have "stream r f w = frag" using Nil.prems(6) by (simp add: nl_text_def)
  ultimately show ?case by (intro exI [of _ offset] exI [of _ r] exI [of _ f] exI [of _ "Lines t"] exI [of _ w]) simp
next
  case (Cons l ls)
  have st: "stream r f w = l @ newline # nl_text ls frag"
    using Cons.prems(6) by (simp add: nl_text_def)
  have nl: "newline \<notin> set l" using Cons.prems(7) by simp
  from iteration_line [OF Cons.prems(1,2,3,4,5) st nl, of offset]
  obtain r1 f1 L1 w1 where it:
    "iteration offset t w =
       Inl (loop_offset offset t f r, t\<lparr>reader := Some r1, file' := Some f1, Lines := L1\<rparr>, w1)"
    "map Text L1 = map Text (Lines t) @ [l]" "stream r1 f1 w1 = nl_text ls frag"
    "length (rbuf r) \<le> pos f \<longrightarrow> length (rbuf r1) \<le> pos f1"
    "same_file f f1" "same_env w w1" "pos f1 \<le> max (pos f) (length (inodes (fs w) (ino f)))"
    by blast
  let ?t1 = "t\<lparr>reader := Some r1, file' := Some f1, Lines := L1\<rparr>"
  have c1: "inodes (fs w1) (ino f1) = inodes (fs w) (ino f)"
    using it(5,6) by (simp add: same_file_def same_env_def)
  have step: "tailLoop offset t w = tailLoop (loop_offset offset t f r) ?t1 w1"
    using it(1) by (simp add: tailLoop.simps [of offset t w])
  have k1: "kind f1 = Regular" using it(5) Cons.prems(2) by (simp add: same_file_def)
  from Cons.IH [of ?t1 f1 r1 w1 "loop_offset offset t f r"] k1 it(3) Cons.prems(4,5,7)
  obtain offset' r' f' L' w' where ih:
    "tailLoop (loop_offset offset t f r) ?t1 w1 =
       tailLoop offset' (?t1\<lparr>reader := Some r', file' := Some f', Lines := L'\<rparr>) w'"
    "map Text L' = map Text (Lines ?t1) @ ls" "stream r' f' w' = frag"
    "length (rbuf r1) \<le> pos f1 \<longrightarrow> length (rbuf r') \<le> pos f'"
    "same_file f1 f'" "same_env w1 w'" "Pipe (config t) \<longrightarrow> offset' = loop_offset offset t f r"
    "pos f' \<le> max (pos f1) (length (inodes (fs w1) (ino f1)))"
    by auto
  have "tailLoop offset t w = tailLoop offset' (t\<lparr>reader := Some r', file' := Some f', Lines := L'\<rparr>) w'"
    using step ih(1) by simp
  moreover have "Pipe (config t) \<longrightarrow> offset' = offset" using ih(7) by (simp add: loop_offset_def)
  moreover have "map Text L' = map Text (Lines t) @ l # ls" using ih(2) it(2) by simp
  moreover have "same_file f f'" using it(5) ih(5) by (rule same_file_trans)
  moreover have "same_env w w'" using it(6) ih(6) by (rule same_env_trans)
  moreover have "pos f' \<le> max (pos f) (length (inodes (fs w) (ino f)))"
    using ih(8) it(7) unfolding c1 by simp
  ultimately show ?case using ih(3,4) it(4) by blast
qed

lemma iteration_eof:
  assumes "file' t = Some f" "kind f = Regular" "reader t = Some r"
    and "newline \<notin> set (stream r f w)"
  shows "\<exists>r' f' w'. iteration offset t w =
             on_EOF (loop_offset offset t f r) (stream r f w)
               (t\<lparr>reader := Some r', file' := Some f'\<rparr>) w' \<and>
           rbuf r' = [] \<and> stream r' f' w' = [] \<and> same_file f f' \<and> same_env w w'"
proof -
  define w0 where "w0 = (if Pipe (config t) then w else emit (IoSeek (fname f) 0 1) w)"
  have tel: "(if \<not> Pipe (config t) then Tell t w else (Ret (offset, None), t, w)) =
             (Ret (loop_offset offset t f r, None), t, w0)"
    using Tell_regular [OF assms(1,2,3), of w] by (simp add: loop_offset_def w0_def)
  have e0: "same_env w w0" by (simp add: w0_def)
  have st0: "stream r f w0 = stream r f w" by (simp add: stream_def w0_def)
  from readLine_eof [OF assms(1,2,3), of w0] assms(4) st0
  obtain r' f' w1 where rl:
    "readLine t w0 = (Ret (stream r f w, Some EOF), t\<lparr>reader := Some r', file' := Some f'\<rparr>, w1)"
    "rbuf r' = []" "stream r' f' w1 = []" "same_file f f'" "same_env w0 w1"
    by auto
  have "iteration offset t w =
          on_EOF (loop_offset offset t f r) (stream r f w) (t\<lparr>reader := Some r', file' := Some f'\<rparr>) w1"
    unfolding iteration_def tel using rl(1) by simp
  moreover have "same_env w w1" using e0 rl(5) by (rule same_env_trans)
  ultimately show ?thesis using rl(2,3,4) by blast
qed

lemma tailLoop_nofollow:
  assumes "\<not> Follow (config t)"
    and "file' t = Some f" "kind f = Regular" "reader t = Some r"
    and "\<not> lines_closed t" "\<not> dying (tomb t)"
    and "stream r f w = nl_text ls frag" "\<forall>l\<in>set ls. newline \<notin> set l" "newline \<notin> set frag"
  shows "\<exists>r' f' L' w'.
           tailLoop offset t w = (Ret (), t\<lparr>reader := Some r', file' := Some f', Lines := L'\<rparr>, w') \<and>
           map Text L' = map Text (Lines t) @ ls @ (if frag = [] then [] else [frag]) \<and>
           same_file f f' \<and> same_env w w'"
proof -
  from tailLoop_read_lines [OF assms(2,3,4,5,6,7,8), of offset]
  obtain offset1 r1 f1 L1 w1 where rd:
    "tailLoop offset t w = tailLoop offset1 (t\<lparr>reader := Some r1, file' := Some f1, Lines := L1\<rparr>) w1"
    "map Text L1 = map Text (Lines t) @ ls" "stream r1 f1 w1 = frag"
    "same_file f f1" "same_env w w1"
    by blast
  let ?t1 = "t\<lparr>reader := Some r1, file' := Some f1, Lines := L1\<rparr>"
  have k1: "kind f1 = Regular" using rd(4) assms(3) by (simp add: same_file_def)
  from iteration_eof [of ?t1 f1 r1 w1 offset1] k1 rd(3) assms(9)
  obtain r2 f2 w2 where it:
    "iteration offset1 ?t1 w1 =
       on_EOF (loop_offset offset1 ?t1 f1 r1) frag (?t1\<lparr>reader := Some r2, file' := Some f2\<rparr>) w2"
    "same_file f1 f2" "same_env w1 w2"
    by auto
  let ?t2 = "t\<lparr>reader := Some r2, file' := Some f2, Lines := L1\<rparr>"
  define L2 where "L2 = (if frag = [] then L1 else L1 @ [\<lparr>Text = frag, Time = clock w2, Err = None\<rparr>])"
  define w3 where "w3 = (if frag = [] then w2 else w2\<lparr>clock := Suc (clock w2)\<rparr>)"
  have "iteration offset1 ?t1 w1 = Inr (Ret (), t\<lparr>reader := Some r2, file' := Some f2, Lines := L2\<rparr>, w3)"
    unfolding it(1) using assms(1,5)
    by (simp add: on_EOF_def sendLine_def L2_def w3_def)
  then have "tailLoop offset t w = (Ret (), t\<lparr>reader := Some r2, file' := Some f2, Lines := L2\<rparr>, w3)"
    unfolding rd(1) by (simp add: tailLoop.simps [of offset1 ?t1 w1])
  moreover have "map Text L2 = map Text (Lines t) @ ls @ (if frag = [] then [] else [frag])"
    using rd(2) by (simp add: L2_def)
  moreover have "same_file f f2" using rd(4) it(2) by (rule same_file_trans)
  moreover have "same_env w w3" using rd(5) it(3) by (simp add: same_env_def w3_def)
  ultimately show ?thesis by blast
qed

subsection \<open>From \<open>File\<close> to the loop\<close>

lemma reopen_present:
  assumes "paths (fs w) (Filename t) = Node k i"
  shows "\<exists>w1. reopen t w =
           (Ret None, t\<lparr>file' := Some \<lparr>fname = Filename t, kind = k, ino = i, pos = 0\<rparr>\<rparr>, w1) \<and>
         same_env w w1"
proof (cases "file' t")
  case None
  then show ?thesis using assms
    by (simp add: reopen_def closeFile_def reopen_loop.simps [of t w] os_Open_def)
next
  case (Some g)
  then show ?thesis using assms
    by (simp add: reopen_def closeFile_def os_Close_def os_Open_def
        reopen_loop.simps [of "t\<lparr>file' := None\<rparr>" "emit (IoClose (fname g)) w"])
      (simp add: same_env_def)
qed

lemma lseek_opened: "lseek x (opened name i q) off wh = lseek x (opened [] i q) off wh"
  by (simp add: lseek_def opened_def Let_def)

lemma lseek_bound: "lseek x f off wh = Inr p \<Longrightarrow> p = pos f \<or> int p \<le> s_maxbytes x"
  by (auto simp: lseek_def Let_def split: if_splits sum.splits)

lemma start_pos_bound:
  "start_pos cfg x i = Some p \<Longrightarrow> 0 \<le> s_maxbytes x \<Longrightarrow> int p \<le> s_maxbytes x"
  by (auto simp: start_pos_def opened_def split: option.splits sum.splits dest!: lseek_bound)

lemma start_pos_Some:
  "Location cfg = Some loc \<Longrightarrow>
     start_pos cfg x i =
       (case lseek x (opened name i 0) (Offset loc) (Whence loc) of
          Inl e \<Rightarrow> None
        | Inr p \<Rightarrow> Some p)"
  by (simp add: start_pos_def lseek_opened [of x name])

lemma tailFileSync_body_start:
  assumes "paths (fs w) (Filename t) = Node Regular i"
    and "MustExist (config t) \<longrightarrow> file' t = Some (opened (Filename t) i 0)"
    and "start_pos (config t) (fs w) i = Some p"
  shows "\<exists>w1. tailFileSync_body t w =
           tailLoop 0 (t\<lparr>file' := Some (opened (Filename t) i p), reader := Some NewReader\<rparr>) w1 \<and>
         same_env w w1"
proof -
  define t1 where "t1 = t\<lparr>file' := Some (opened (Filename t) i 0)\<rparr>"
  obtain w1 where op: "(if \<not> MustExist (config t) then reopen t w else (Ret None, t, w)) =
      (Ret None, t1, w1)" "same_env w w1"
  proof (cases "MustExist (config t)")
    case True
    then have "t1 = t" using assms(2) by (simp add: t1_def)
    then show ?thesis using that [of w] True by simp
  next
    case False
    then show ?thesis using reopen_present [OF assms(1)] that by (auto simp: t1_def opened_def)
  qed
  have c1: "fs w1 = fs w" using op(2) by (simp add: same_env_def)
  obtain w2 where sk: "(case Location (config t1) of
                   None \<Rightarrow> (None, t1, w1)
                 | Some loc \<Rightarrow>
                     (case file_Seek (file' t1) (Offset loc) (Whence loc) w1 of
                        (Inl err, fo, w2) \<Rightarrow> (Some err, t1\<lparr>file' := fo\<rparr>, w2)
                      | (Inr p, fo, w2) \<Rightarrow> (None, t1\<lparr>file' := fo\<rparr>, w2))) =
       (None, t\<lparr>file' := Some (opened (Filename t) i p)\<rparr>, w2)" "same_env w1 w2"
  proof (cases "Location (config t)")
    case None
    then have "p = 0" using assms(3) by (simp add: start_pos_def)
    then show ?thesis using that [of w1] None by (simp add: t1_def)
  next
    case (Some loc)
    then have "lseek (fs w1) (opened (Filename t) i 0) (Offset loc) (Whence loc) = Inr p"
      using assms(3) c1 start_pos_Some [OF Some, of "fs w" i "Filename t"]
      by (auto split: sum.splits)
    then show ?thesis using that [of "emit (IoSeek (Filename t) (Offset loc) (Whence loc)) w1"] Some
      by (simp add: t1_def file_Seek_def os_Seek_def Let_def opened_def)
  qed
  have "tailFileSync_body t w =
           tailLoop 0 (t\<lparr>file' := Some (opened (Filename t) i p), reader := Some NewReader\<rparr>) w2"
    unfolding tailFileSync_body_def op(1) by (simp add: sk(1) openReader_def)
  moreover have "same_env w w2" using op(2) sk(2) by (rule same_env_trans)
  ultimately show ?thesis by blast
qed

lemma File_present:
  assumes "\<not> (ReOpen cfg \<and> \<not> Follow cfg)" "paths (fs w) filename = Node Regular i"
  shows "\<exists>w1. File filename cfg w =
           (Inr ((new_tail filename cfg)
                  \<lparr>file' := (if MustExist cfg then Some (opened filename i 0) else None)\<rparr>), w1) \<and>
         same_env w w1"
  using assms
  by (auto simp: File_def Let_def new_tail_def os_Open_def Println_def opened_def same_env_def)

subsection \<open>Tailing without \<open>Follow\<close>\<close>

text \<open>
  C1, amended. Take a configuration without \<open>Follow\<close> that \<open>File\<close> accepts (so without
  \<open>ReOpen\<close>), and a path that names a regular file. Let the initial position be the
  start of the file, or the place where the seek to \<open>Location\<close> lands when there is a
  \<open>Location\<close> and that seek succeeds; and let the content of the file from there on be
  the lines \<open>ls\<close>, each ended by a newline, followed by a rest \<open>frag\<close> without one. Then
  \<open>File\<close> and its task deliver exactly \<open>ls\<close>, in order and without the newlines, then
  \<open>frag\<close> if it is not empty; the task returns, \<open>Lines\<close> is closed, the file is closed, and
  the tomb is dead with no error.
\<close>

theorem tail_nofollow_delivers:
  assumes "\<not> Follow cfg" "\<not> ReOpen cfg"
    and "paths (fs w) filename = Node Regular i"
    and "start_pos cfg (fs w) i = Some p"
    and "drop p (inodes (fs w) i) = nl_text ls frag"
    and "\<forall>l\<in>set ls. newline \<notin> set l" "newline \<notin> set frag"
  shows "\<exists>t' w'. tail_run filename cfg w = (Inr (Ret (), t'), w') \<and>
           map Text (Lines t') = ls @ (if frag = [] then [] else [frag]) \<and>
           lines_closed t' \<and> reason (tomb t') = None \<and> dead (tomb t') \<and> file' t' = None"
proof -
  define t0 where "t0 = (new_tail filename cfg)
                  \<lparr>file' := (if MustExist cfg then Some (opened filename i 0) else None)\<rparr>"
  from File_present [of cfg w filename i] assms(2,3)
  obtain w0 where f: "File filename cfg w = (Inr t0, w0)" "same_env w w0"
    by (auto simp: t0_def)
  have t0: "Filename t0 = filename" "config t0 = cfg" "Lines t0 = []" "\<not> lines_closed t0"
    "tomb t0 = \<lparr>dying = False, reason = None, dead = False\<rparr>"
    by (simp_all add: t0_def new_tail_def)
  have fs0: "fs w0 = fs w" using f(2) by (simp add: same_env_def)
  define t1 where "t1 = t0\<lparr>file' := Some (opened filename i p), reader := Some NewReader\<rparr>"
  from tailFileSync_body_start [of w0 t0 i p] assms(3,4) fs0 t0
  obtain w1 where b: "tailFileSync_body t0 w0 = tailLoop 0 t1 w1" "same_env w0 w1"
    by (auto simp: t0_def t1_def)
  have fs1: "fs w1 = fs w" using b(2) fs0 by (simp add: same_env_def)
  have st: "stream NewReader (opened filename i p) w1 = nl_text ls frag"
    using assms(5) fs1 by (simp add: stream_def NewReader_def opened_def)
  from tailLoop_nofollow [of t1 "opened filename i p" NewReader w1 ls frag 0] st assms(1,6,7) t0
  obtain r' f' L' w' where lp:
    "tailLoop 0 t1 w1 = (Ret (), t1\<lparr>reader := Some r', file' := Some f', Lines := L'\<rparr>, w')"
    "map Text L' = ls @ (if frag = [] then [] else [frag])"
    by (auto simp: t1_def opened_def)
  let ?t2 = "t1\<lparr>reader := Some r', file' := Some f', Lines := L'\<rparr>"
  define t3 where "t3 = ?t2\<lparr>lines_closed := True, file' := None,
                     tomb := \<lparr>dying = True, reason = None, dead = True\<rparr>\<rparr>"
  have "tailFileSync t0 w0 = (Ret (), t3, os_Close f' w')"
    unfolding tailFileSync_def b(1) lp(1) using t0
    by (simp add: close_def closeFile_def Done_def Kill_def t1_def t3_def)
  then have "tail_run filename cfg w = (Inr (Ret (), t3), os_Close f' w')"
    unfolding tail_run_def f(1) by simp
  moreover have "map Text (Lines t3) = ls @ (if frag = [] then [] else [frag])"
    using lp(2) by (simp add: t3_def)
  moreover have "lines_closed t3 \<and> reason (tomb t3) = None \<and> dead (tomb t3) \<and> file' t3 = None"
    by (simp add: t3_def)
  ultimately show ?thesis by blast
qed

lemma start_pos_ex0: "start_pos cfg0 (fs (wfile (nl_text [''a'', ''b''] ''c''))) 0 = Some 0"
  by code_simp

lemma start_pos_ex1: "start_pos (cfg_seek 0 3) (fs (wfile (nl_text [''a'', ''b''] ''c''))) 0 = Some 0"
  by code_simp

lemma start_pos_ex2: "start_pos (cfg_seek (- 3) 2) (fs (wfile (nl_text [''a'', ''b''] ''c''))) 0 = Some 2"
  by code_simp

theorem tail_nofollow_delivers_witness:
  "(\<exists>t' w'. tail_run ''log'' cfg0 (wfile (nl_text [''a'', ''b''] ''c'')) = (Inr (Ret (), t'), w') \<and>
           map Text (Lines t') = [''a'', ''b'', ''c''] \<and>
           lines_closed t' \<and> reason (tomb t') = None \<and> dead (tomb t') \<and> file' t' = None) \<and>
   (\<exists>t' w'. tail_run ''log'' (cfg_seek 0 3) (wfile (nl_text [''a'', ''b''] ''c'')) =
              (Inr (Ret (), t'), w') \<and>
           map Text (Lines t') = [''a'', ''b'', ''c''] \<and>
           lines_closed t' \<and> reason (tomb t') = None \<and> dead (tomb t') \<and> file' t' = None) \<and>
   (\<exists>t' w'. tail_run ''log'' (cfg_seek (- 3) 2) (wfile (nl_text [''a'', ''b''] ''c'')) =
              (Inr (Ret (), t'), w') \<and>
           map Text (Lines t') = [''b'', ''c''] \<and>
           lines_closed t' \<and> reason (tomb t') = None \<and> dead (tomb t') \<and> file' t' = None)"
  using tail_nofollow_delivers [OF _ _ _ start_pos_ex0, of "''log''" "[''a'', ''b'']" "''c''"]
    tail_nofollow_delivers [OF _ _ _ start_pos_ex1, of "''log''" "[''a'', ''b'']" "''c''"]
    tail_nofollow_delivers [OF _ _ _ start_pos_ex2, of "''log''" "[''b'']" "''c''"]
  by (simp add: cfg0_def cfg_seek_def wfile_def world0_def newline_def nl_text_def)

text \<open>
  C1, as the claim states it, for every configuration without \<open>Follow\<close>: with
  \<open>Location\<close> set to offset 2 from the start, the file of the two lines \<open>a\<close> and \<open>b\<close> is
  delivered as the single line \<open>b\<close>.
\<close>

theorem tail_nofollow_Location_counterexample:
  "\<not> Follow (cfg0\<lparr>Location := Some \<lparr>Offset = 2, Whence = 0\<rparr>\<rparr>) \<and>
   map Text (Lines (snd (projr (fst
      (tail_run ''log'' (cfg0\<lparr>Location := Some \<lparr>Offset = 2, Whence = 0\<rparr>\<rparr>)
         (wfile (nl_text [''a'', ''b''] []))))))) = [''b''] \<and>
   map Text (Lines (snd (projr (fst
      (tail_run ''log'' (cfg0\<lparr>Location := Some \<lparr>Offset = 2, Whence = 0\<rparr>\<rparr>)
         (wfile (nl_text [''a'', ''b''] []))))))) \<noteq> [''a'', ''b'']"
  by code_simp

subsection \<open>The signals\<close>

lemma waitForChanges_select:
  assumes "can_watch t f w" "changes_script w = (chg, ev) # rest"
  shows "waitForChanges t w =
     (let t1 = watched t; w2 = turned chg (watched_world t f w) in
      case ev of
        Modified \<Rightarrow> (Ret None, t1, w2)
      | Deleted \<Rightarrow>
          (if ReOpen (config t1) then
             (case reopen (t1\<lparr>changes := None\<rparr>) w2 of
                (Ret None, t3, w3) \<Rightarrow> (Ret None, openReader t3, w3)
              | (r, t3, w3) \<Rightarrow> (r, t3, w3))
           else (Ret (Some ErrStop), t1\<lparr>changes := None\<rparr>, w2))
      | Truncated \<Rightarrow>
          (case reopen t1 w2 of
             (Ret None, t3, w3) \<Rightarrow> (Ret None, openReader t3, w3)
           | (r, t3, w3) \<Rightarrow> (r, t3, w3))
      | Killed r \<Rightarrow>
          (case Kill r (tomb t1) of
             None \<Rightarrow> (Panic, t1, w2)
           | Some tb \<Rightarrow> (Ret (Some ErrStop), t1\<lparr>tomb := tb\<rparr>, w2)))"
proof (cases "changes t")
  case None
  then have k: "kind f \<noteq> Fifo" "watch_err w = None" "file' t = Some f" "\<not> dying (tomb t)"
    using assms(1) by (auto simp: can_watch_def)
  have sk: "file_Seek (Some f) 0 1 w = (Inr (int (pos f)), Some f, emit (IoSeek (fname f) 0 1) w)"
    using k by (simp add: file_Seek_def os_Seek_def lseek_cur Let_def)
  have same: "t\<lparr>file' := Some f, changes := Some NewFileChanges\<rparr> = t\<lparr>changes := Some NewFileChanges\<rparr>"
    using k(3) by simp
  show ?thesis
    unfolding waitForChanges_def
    apply (insert None k assms(2))
    apply (cases ev)
       apply (simp_all add: sk ChangeEvents_def same watched_def watched_world_def turned_def
        Let_def)
    done
next
  case (Some fc)
  then have k: "\<not> dying (tomb t)" using assms(1) by (auto simp: can_watch_def)
  show ?thesis
    unfolding waitForChanges_def
    apply (insert Some k assms(2))
    apply (cases ev)
       apply (simp_all add: watched_def watched_world_def turned_def Let_def)
    done
qed

lemma watched_simps [simp]:
  "file' (watched t) = file' t" "tomb (watched t) = tomb t" "config (watched t) = config t"
  "Filename (watched t) = Filename t" "Lines (watched t) = Lines t" "reader (watched t) = reader t"
  "lines_closed (watched t) = lines_closed t" "(watched t)\<lparr>changes := c\<rparr> = t\<lparr>changes := c\<rparr>"
  by (simp_all add: watched_def)

lemma turned_simps [simp]:
  "fs (turned chg w) = chg (fs w)" "changes_script (turned chg w) = tl (changes_script w)"
  "trace (turned chg w) = trace w" "watch_err (turned chg w) = watch_err w"
  by (simp_all add: turned_def)

lemma watched_world_simps [simp]:
  "fs (watched_world t f w) = fs w" "changes_script (watched_world t f w) = changes_script w"
  "watch_err (watched_world t f w) = watch_err w"
  by (simp_all add: watched_world_def)

lemma waitForChanges_reopened:
  assumes "can_watch t f w" "changes_script w = (chg, ev) # rest"
    and "ev = Truncated \<or> (ev = Deleted \<and> ReOpen (config t))"
    and "paths (chg (fs w)) (Filename t) = Node k i"
  shows "waitForChanges t w =
     (Ret None,
      (if ev = Deleted then t\<lparr>changes := None\<rparr> else watched t)
        \<lparr>file' := Some \<lparr>fname = Filename t, kind = k, ino = i, pos = 0\<rparr>, reader := Some NewReader\<rparr>,
      emit (IoOpen (Filename t)) (emit (IoClose (fname f)) (turned chg (watched_world t f w))))"
proof -
  have f: "file' t = Some f" using assms(1) by (simp add: can_watch_def)
  have ro: "reopen t1 (turned chg (watched_world t f w)) =
      (Ret None, t1\<lparr>file' := Some \<lparr>fname = Filename t, kind = k, ino = i, pos = 0\<rparr>\<rparr>,
       emit (IoOpen (Filename t)) (emit (IoClose (fname f)) (turned chg (watched_world t f w))))"
    if "file' t1 = Some f" "Filename t1 = Filename t" for t1
    using that assms(4)
    by (simp add: reopen_def closeFile_def os_Close_def os_Open_def
        reopen_loop.simps [of "t1\<lparr>file' := None\<rparr>"
          "emit (IoClose (fname f)) (turned chg (watched_world t f w))"])
  from assms(3) show ?thesis
  proof
    assume "ev = Truncated"
    then show ?thesis
      using waitForChanges_select [OF assms(1,2)] ro [of "watched t"] f
      by (simp add: Let_def openReader_def)
  next
    assume "ev = Deleted \<and> ReOpen (config t)"
    then show ?thesis
      using waitForChanges_select [OF assms(1,2)] ro [of "t\<lparr>changes := None\<rparr>"] f
      by (simp add: Let_def openReader_def)
  qed
qed

text \<open>
  C3, as the claim states it, with no error surfaced whenever a \<open>Truncated\<close> signal
  arrives: the reopen can fail, and \<open>waitForChanges\<close> returns its error, which the loop
  records in the tomb. Here the file has been truncated and made unreadable:
  \<open>waitForChanges\<close> returns \<open>ErrFileOpen\<close>, and the run that had delivered the line \<open>a\<close>
  ends with \<open>ErrFileOpen\<close> as its error.
\<close>

theorem truncated_reopen_error_counterexample:
  "fst (waitForChanges tail0 ((wfile ''xy'')\<lparr>changes_script := [(no_access, Truncated)]\<rparr>)) =
     Ret (Some ErrFileOpen) \<and>
   reason (tomb (snd (projr (fst
     (tail_run ''log'' (cfg0\<lparr>Follow := True\<rparr>)
        ((wfile (nl_text [''a''] []))\<lparr>changes_script := [(no_access, Truncated)]\<rparr>)))))) =
     Some ErrFileOpen \<and>
   map Text (Lines (snd (projr (fst
     (tail_run ''log'' (cfg0\<lparr>Follow := True\<rparr>)
        ((wfile (nl_text [''a''] []))\<lparr>changes_script := [(no_access, Truncated)]\<rparr>)))))) = [''a'']"
  by code_simp

text \<open>
  C3, amended. The engine waits (its tomb is not dying, and the change channels are there
  or can be made), the signal that arrives is \<open>Truncated\<close>, and the path names something
  that can be opened. Then, whatever \<open>ReOpen\<close> and the rest of the configuration are,
  \<open>waitForChanges\<close> closes the file, opens the path again, puts a new reader on it and
  returns nil; the tomb is untouched, and the loop goes round again. Setting or
  unsetting \<open>ReOpen\<close> in the tail changes nothing else in the outcome.
\<close>

theorem truncated_reopens:
  assumes "can_watch t f w" "changes_script w = (chg, Truncated) # rest"
    and "paths (chg (fs w)) (Filename t) = Node k i"
  shows "waitForChanges t w =
     (Ret None,
      (watched t)\<lparr>file' := Some \<lparr>fname = Filename t, kind = k, ino = i, pos = 0\<rparr>,
                  reader := Some NewReader\<rparr>,
      emit (IoOpen (Filename t)) (emit (IoClose (fname f)) (turned chg (watched_world t f w)))) \<and>
    wait_more offset t w =
      Inl (offset,
        (watched t)\<lparr>file' := Some \<lparr>fname = Filename t, kind = k, ino = i, pos = 0\<rparr>,
                  reader := Some NewReader\<rparr>,
        emit (IoOpen (Filename t)) (emit (IoClose (fname f)) (turned chg (watched_world t f w)))) \<and>
    waitForChanges (with_ReOpen b t) w =
     (Ret None,
      with_ReOpen b ((watched t)\<lparr>file' := Some \<lparr>fname = Filename t, kind = k, ino = i, pos = 0\<rparr>,
                  reader := Some NewReader\<rparr>),
      emit (IoOpen (Filename t)) (emit (IoClose (fname f)) (turned chg (watched_world t f w))))"
proof -
  have nd: "\<not> dying (tomb t)" using assms(1) by (simp add: can_watch_def)
  note wf = waitForChanges_reopened [OF assms(1,2) _ assms(3), simplified]
  have cw: "can_watch (with_ReOpen b t) f w"
    using assms(1) by (simp add: can_watch_def with_ReOpen_def)
  have fn: "paths (chg (fs w)) (Filename (with_ReOpen b t)) = Node k i"
    using assms(3) by (simp add: with_ReOpen_def)
  have eq: "(watched (with_ReOpen b t))\<lparr>file' := a, reader := c\<rparr> =
            with_ReOpen b ((watched t)\<lparr>file' := a, reader := c\<rparr>)" for a c
    by (cases t) (simp add: watched_def with_ReOpen_def)
  have ww: "watched_world (with_ReOpen b t) f w = watched_world t f w"
    by (simp add: watched_world_def with_ReOpen_def)
  have "waitForChanges (with_ReOpen b t) w =
     (Ret None,
      with_ReOpen b ((watched t)\<lparr>file' := Some \<lparr>fname = Filename t, kind = k, ino = i, pos = 0\<rparr>,
                  reader := Some NewReader\<rparr>),
      emit (IoOpen (Filename t)) (emit (IoClose (fname f)) (turned chg (watched_world t f w))))"
    using waitForChanges_reopened [OF cw assms(2) _ fn, simplified]
    by (simp add: eq ww) (simp add: with_ReOpen_def)
  then show ?thesis using wf nd by (simp add: wait_more_def poll_dying_def)
qed

theorem truncated_reopens_witness:
  "\<not> ReOpen (config tail0) \<and> ReOpen (config (with_ReOpen True tail0)) \<and>
   waitForChanges tail0 (wt_script ''xy'' Truncated) =
     (Ret None,
      tail0\<lparr>changes := Some NewFileChanges,
            file' := Some \<lparr>fname = ''log'', kind = Regular, ino = 0, pos = 0\<rparr>,
            reader := Some NewReader\<rparr>,
      (wfile ''xy'')\<lparr>trace := [IoSeek ''log'' 0 1, IoClose ''log'', IoOpen ''log'']\<rparr>) \<and>
   waitForChanges (with_ReOpen True tail0) (wt_script ''xy'' Truncated) =
     (Ret None,
      with_ReOpen True
        (tail0\<lparr>changes := Some NewFileChanges,
               file' := Some \<lparr>fname = ''log'', kind = Regular, ino = 0, pos = 0\<rparr>,
               reader := Some NewReader\<rparr>),
      (wfile ''xy'')\<lparr>trace := [IoSeek ''log'' 0 1, IoClose ''log'', IoOpen ''log'']\<rparr>)"
  using truncated_reopens [of tail0 "\<lparr>fname = ''log'', kind = Regular, ino = 0, pos = 3\<rparr>"
      "wt_script ''xy'' Truncated" "\<lambda>x. x" "[]" Regular 0 0 True]
  by (simp add: can_watch_def tail0_def wt_script_def wfile_def world0_def watched_def
      watched_world_def turned_def emit_def with_ReOpen_def)

lemma waitForChanges_deleted_stop:
  assumes "can_watch t f w" "changes_script w = (chg, Deleted) # rest" "\<not> ReOpen (config t)"
  shows "waitForChanges t w =
     (Ret (Some ErrStop), t\<lparr>changes := None\<rparr>, turned chg (watched_world t f w))"
  using waitForChanges_select [OF assms(1,2)] assms(3) by (simp add: Let_def)

lemma os_File_pos_eq:
  "same_file f f' \<Longrightarrow> f'\<lparr>pos := n\<rparr> = f\<lparr>pos := n\<rparr>"
  by (cases f; cases f') (simp add: same_file_def)

lemma on_EOF_follow:
  assumes "Follow (config t)" "file' t = Some f" "kind f \<noteq> Fifo" "reader t = Some r"
    and "frag \<noteq> [] \<longrightarrow> 0 \<le> offset \<and> offset \<le> s_maxbytes (fs w)"
  shows "on_EOF offset frag t w =
     wait_more offset
       (if frag = [] then t else t\<lparr>file' := Some (f\<lparr>pos := nat offset\<rparr>), reader := Some (Reset r)\<rparr>)
       (if frag = [] then w else emit (IoSeek (fname f) offset 0) (Println frag w))"
proof (cases "frag = []")
  case True
  then show ?thesis using assms(1) by (simp add: on_EOF_def)
next
  case False
  then have "lseek (fs (Println frag w)) f offset 0 = Inr (nat offset)"
    using assms(3,5) by (simp add: lseek_set Println_def)
  then show ?thesis using False assms(1,2,4)
    by (simp add: on_EOF_def seekTo_def file_Seek_def os_Seek_def Let_def)
qed

text \<open>
  The loop up to its first wait, with \<open>Follow\<close>: the whole lines are handed out, a half
  line is put back, and the engine waits with the cursor at the end of the last whole
  line or, with \<open>Pipe\<close>, at the offset the loop started with.
\<close>

lemma tailLoop_follow_to_wait:
  assumes "Follow (config t)"
    and "file' t = Some f" "kind f = Regular" "reader t = Some r"
    and "\<not> lines_closed t" "\<not> dying (tomb t)" "length (rbuf r) \<le> pos f" "0 \<le> offset"
    and "stream r f w = nl_text ls frag" "\<forall>l\<in>set ls. newline \<notin> set l" "newline \<notin> set frag"
    and "offset \<le> s_maxbytes (fs w)" "int (pos f) \<le> s_maxbytes (fs w)"
    and "int (length (inodes (fs w) (ino f))) \<le> s_maxbytes (fs w)"
  shows "\<exists>offset' r' f' L' w'.
           tailLoop offset t w =
             (case wait_more offset' (t\<lparr>reader := Some r', file' := Some f', Lines := L'\<rparr>) w' of
                Inl (o2, t2, w2) \<Rightarrow> tailLoop o2 t2 w2
              | Inr res \<Rightarrow> res) \<and>
           map Text L' = map Text (Lines t) @ ls \<and> rbuf r' = [] \<and>
           same_file f f' \<and> same_env w w'"
proof -
  from tailLoop_read_lines [OF assms(2,3,4,5,6,9,10), of offset] assms(7)
  obtain offset1 r1 f1 L1 w1 where rd:
    "tailLoop offset t w = tailLoop offset1 (t\<lparr>reader := Some r1, file' := Some f1, Lines := L1\<rparr>) w1"
    "map Text L1 = map Text (Lines t) @ ls" "stream r1 f1 w1 = frag"
    "length (rbuf r1) \<le> pos f1" "Pipe (config t) \<longrightarrow> offset1 = offset"
    "same_file f f1" "same_env w w1" "pos f1 \<le> max (pos f) (length (inodes (fs w) (ino f)))"
    by blast
  let ?t1 = "t\<lparr>reader := Some r1, file' := Some f1, Lines := L1\<rparr>"
  have k1: "kind f1 = Regular" using rd(6) assms(3) by (simp add: same_file_def)
  have b1: "int (pos f1) \<le> s_maxbytes (fs w)" using rd(8) assms(13,14) by linarith
  from iteration_eof [of ?t1 f1 r1 w1 offset1] k1 rd(3) assms(11)
  obtain r2 f2 w2 where it:
    "iteration offset1 ?t1 w1 =
       on_EOF (loop_offset offset1 ?t1 f1 r1) frag (?t1\<lparr>reader := Some r2, file' := Some f2\<rparr>) w2"
    "rbuf r2 = []" "same_file f1 f2" "same_env w1 w2"
    by auto
  let ?t2 = "t\<lparr>reader := Some r2, file' := Some f2, Lines := L1\<rparr>"
  define off2 where "off2 = loop_offset offset1 ?t1 f1 r1"
  have o2: "0 \<le> off2" using rd(4,5) assms(8) by (auto simp: off2_def loop_offset_def)
  have fs2: "fs w2 = fs w" using rd(7) it(4) by (simp add: same_env_def)
  have o3: "off2 \<le> s_maxbytes (fs w2)"
    using rd(5) assms(12) b1 unfolding fs2 by (auto simp: off2_def loop_offset_def)
  have k2: "kind f2 \<noteq> Fifo" using it(3) k1 by (simp add: same_file_def)
  define r3 where "r3 = (if frag = [] then r2 else Reset r2)"
  define f3 where "f3 = (if frag = [] then f2 else f2\<lparr>pos := nat off2\<rparr>)"
  define w3 where "w3 = (if frag = [] then w2 else emit (IoSeek (fname f2) off2 0) (Println frag w2))"
  have req: "t\<lparr>Lines := L, file' := a, reader := b\<rparr> = t\<lparr>reader := b, file' := a, Lines := L\<rparr>"
    for L a b by (cases t) simp
  have req2: "t\<lparr>Lines := L, reader := b, file' := a\<rparr> = t\<lparr>reader := b, file' := a, Lines := L\<rparr>"
    for L a b by (cases t) simp
  have "on_EOF off2 frag ?t2 w2 = wait_more off2 (t\<lparr>reader := Some r3, file' := Some f3, Lines := L1\<rparr>) w3"
    using on_EOF_follow [of ?t2 f2 r2 frag off2 w2] assms(1) k2 o2 o3
    by (simp add: r3_def f3_def w3_def req)
  then have "tailLoop offset t w =
      (case wait_more off2 (t\<lparr>reader := Some r3, file' := Some f3, Lines := L1\<rparr>) w3 of
                Inl (o2, t2, w2) \<Rightarrow> tailLoop o2 t2 w2
              | Inr res \<Rightarrow> res)"
    unfolding rd(1) using it(1) by (simp add: tailLoop.simps [of offset1 ?t1 w1] off2_def req2)
  moreover have "rbuf r3 = []" using it(2) by (simp add: r3_def Reset_def)
  moreover have "same_file f f3" using rd(6) it(3) by (simp add: same_file_def f3_def)
  moreover have "same_env w w3" using rd(7) it(4) by (simp add: same_env_def w3_def Println_def)
  ultimately show ?thesis using rd(2) by blast
qed

lemma wait_more_deleted_stop:
  assumes "can_watch t f w" "changes_script w = (chg, Deleted) # rest" "\<not> ReOpen (config t)"
  shows "wait_more offset t w = Inr (Ret (), t\<lparr>changes := None\<rparr>, turned chg (watched_world t f w))"
  using waitForChanges_deleted_stop [OF assms] by (simp add: wait_more_def)

lemma tail_run_deleted_stop:
  assumes "Follow cfg" "\<not> ReOpen cfg"
    and "paths (fs w) filename = Node Regular i"
    and "start_pos cfg (fs w) i = Some p"
    and "int (length (inodes (fs w) i)) \<le> s_maxbytes (fs w)"
    and "drop p (inodes (fs w) i) = nl_text ls frag"
    and "\<forall>l\<in>set ls. newline \<notin> set l" "newline \<notin> set frag"
    and "watch_err w = None" "changes_script w = (chg, Deleted) # rest"
  shows "\<exists>t' w'. tail_run filename cfg w = (Inr (Ret (), t'), w') \<and>
           map Text (Lines t') = ls \<and> lines_closed t' \<and> reason (tomb t') = None \<and>
           dead (tomb t') \<and> changes_script w' = rest"
proof -
  define t0 where "t0 = (new_tail filename cfg)
                  \<lparr>file' := (if MustExist cfg then Some (opened filename i 0) else None)\<rparr>"
  from File_present [of cfg w filename i] assms(2,3)
  obtain w0 where f: "File filename cfg w = (Inr t0, w0)" "same_env w w0"
    by (auto simp: t0_def)
  have t0: "Filename t0 = filename" "config t0 = cfg" "Lines t0 = []" "\<not> lines_closed t0"
    "tomb t0 = \<lparr>dying = False, reason = None, dead = False\<rparr>" "changes t0 = None"
    by (simp_all add: t0_def new_tail_def)
  have fs0: "fs w0 = fs w" using f(2) by (simp add: same_env_def)
  define t1 where "t1 = t0\<lparr>file' := Some (opened filename i p), reader := Some NewReader\<rparr>"
  from tailFileSync_body_start [of w0 t0 i p] assms(3,4) fs0 t0
  obtain w1 where b: "tailFileSync_body t0 w0 = tailLoop 0 t1 w1" "same_env w0 w1"
    by (auto simp: t0_def t1_def)
  have fs1: "fs w1 = fs w" using b(2) fs0 by (simp add: same_env_def)
  have st: "stream NewReader (opened filename i p) w1 = nl_text ls frag"
    using assms(6) fs1 by (simp add: stream_def NewReader_def opened_def)
  have s0: "0 \<le> s_maxbytes (fs w)" using assms(5) by linarith
  have bd: "0 \<le> s_maxbytes (fs w1)" "int (pos (opened filename i p)) \<le> s_maxbytes (fs w1)"
    "int (length (inodes (fs w1) (ino (opened filename i p)))) \<le> s_maxbytes (fs w1)"
    using start_pos_bound [OF assms(4) s0] assms(5) s0 fs1
    by (simp_all add: opened_def)
  from tailLoop_follow_to_wait [of t1 "opened filename i p" NewReader 0 w1 ls frag]
    st assms(1,7,8) t0 bd
  obtain offset' r' f' L' w2 where lp:
    "tailLoop 0 t1 w1 =
       (case wait_more offset' (t1\<lparr>reader := Some r', file' := Some f', Lines := L'\<rparr>) w2 of
          Inl (o2, t2, w2) \<Rightarrow> tailLoop o2 t2 w2
        | Inr res \<Rightarrow> res)"
    "map Text L' = ls" "same_file (opened filename i p) f'" "same_env w1 w2"
    by (auto simp: t1_def opened_def NewReader_def)
  let ?tw = "t1\<lparr>reader := Some r', file' := Some f', Lines := L'\<rparr>"
  have e2: "watch_err w2 = None" "changes_script w2 = (chg, Deleted) # rest"
    using f(2) b(2) lp(4) assms(9,10) by (simp_all add: same_env_def)
  have cw: "can_watch ?tw f' w2"
    using lp(3) e2(1) t0 by (simp add: can_watch_def t1_def same_file_def opened_def)
  have nr: "\<not> ReOpen (config ?tw)" using assms(2) t0 by (simp add: t1_def)
  define w3 where "w3 = turned chg (watched_world ?tw f' w2)"
  have "tailLoop 0 t1 w1 = (Ret (), ?tw\<lparr>changes := None\<rparr>, w3)"
    unfolding lp(1) wait_more_deleted_stop [OF cw e2(2) nr] by (simp add: w3_def)
  moreover define t3 where "t3 = ?tw\<lparr>changes := None, lines_closed := True, file' := None,
                     tomb := \<lparr>dying = True, reason = None, dead = True\<rparr>\<rparr>"
  ultimately have "tailFileSync t0 w0 = (Ret (), t3, os_Close f' w3)"
    unfolding tailFileSync_def b(1) using t0
    by (simp add: close_def closeFile_def Done_def Kill_def t1_def t3_def)
  then have "tail_run filename cfg w = (Inr (Ret (), t3), os_Close f' w3)"
    unfolding tail_run_def f(1) by simp
  moreover have "map Text (Lines t3) = ls" using lp(2) by (simp add: t3_def)
  moreover have "lines_closed t3 \<and> reason (tomb t3) = None \<and> dead (tomb t3)"
    by (simp add: t3_def)
  moreover have "changes_script (os_Close f' w3) = rest"
    using e2(2) by (simp add: os_Close_def w3_def)
  ultimately show ?thesis by blast
qed

text \<open>
  C4. With \<open>Follow\<close> set and \<open>ReOpen\<close> unset, a \<open>Deleted\<close> signal that arrives while the
  engine waits makes \<open>waitForChanges\<close> return \<open>ErrStop\<close>, and the round of the loop ends
  the function with the lines as they were and the tomb untouched. For a whole run on a
  regular file (no longer than its file system allows) whose first signal is
  \<open>Deleted\<close>: the whole lines of the file are delivered, the task returns, \<open>Lines\<close> is
  closed (nothing more is delivered, whatever happens at the path afterwards), and the
  tomb is dead with no error.
\<close>

theorem deleted_without_ReOpen_stops:
  assumes "Follow (config t)" "\<not> ReOpen (config t)"
    and "can_watch t f wt" "changes_script wt = (chg', Deleted) # rest'"
    and "Follow cfg" "\<not> ReOpen cfg"
    and "paths (fs w) filename = Node Regular i"
    and "start_pos cfg (fs w) i = Some p"
    and "int (length (inodes (fs w) i)) \<le> s_maxbytes (fs w)"
    and "drop p (inodes (fs w) i) = nl_text ls frag"
    and "\<forall>l\<in>set ls. newline \<notin> set l" "newline \<notin> set frag"
    and "watch_err w = None" "changes_script w = (chg, Deleted) # rest"
  shows "waitForChanges t wt =
           (Ret (Some ErrStop), t\<lparr>changes := None\<rparr>, turned chg' (watched_world t f wt)) \<and>
         wait_more offset t wt =
           Inr (Ret (), t\<lparr>changes := None\<rparr>, turned chg' (watched_world t f wt)) \<and>
         (\<exists>t' w'. tail_run filename cfg w = (Inr (Ret (), t'), w') \<and>
            map Text (Lines t') = ls \<and> lines_closed t' \<and> reason (tomb t') = None \<and>
            dead (tomb t') \<and> changes_script w' = rest)"
  using waitForChanges_deleted_stop [OF assms(3,4,2)] wait_more_deleted_stop [OF assms(3,4,2)]
    tail_run_deleted_stop [OF assms(5-14)]
  by simp

theorem deleted_without_ReOpen_stops_witness:
  "waitForChanges tail0 (wt_script ''xy'' Deleted) =
     (Ret (Some ErrStop), tail0\<lparr>changes := None\<rparr>, (wfile ''xy'')\<lparr>trace := [IoSeek ''log'' 0 1]\<rparr>) \<and>
   wait_more 0 tail0 (wt_script ''xy'' Deleted) =
     Inr (Ret (), tail0\<lparr>changes := None\<rparr>, (wfile ''xy'')\<lparr>trace := [IoSeek ''log'' 0 1]\<rparr>) \<and>
   (\<exists>t' w'. tail_run ''log'' (cfg0\<lparr>Follow := True\<rparr>) (wt_script (nl_text [''a''] ''b'') Deleted) =
        (Inr (Ret (), t'), w') \<and>
      map Text (Lines t') = [''a''] \<and> lines_closed t' \<and> reason (tomb t') = None \<and>
      dead (tomb t') \<and> changes_script w' = [])"
  using deleted_without_ReOpen_stops [of tail0 "\<lparr>fname = ''log'', kind = Regular, ino = 0, pos = 3\<rparr>"
      "wt_script ''xy'' Deleted" "\<lambda>x. x" "[]" "cfg0\<lparr>Follow := True\<rparr>"
      "wt_script (nl_text [''a''] ''b'') Deleted" "''log''" 0 0 "[''a'']" "''b''" "\<lambda>x. x" "[]" 0]
  by (simp add: can_watch_def tail0_def wt_script_def wfile_def world0_def watched_def
      watched_world_def turned_def emit_def cfg0_def start_pos_def newline_def s_maxbytes_def
      nl_text_def)

subsection \<open>A half line at the end of the data, with \<open>Follow\<close>\<close>

text \<open>
  C2, amended. With \<open>Follow\<close> set and \<open>Pipe\<close> unset, on a regular file whose cursor is
  within the limit of the file system, let the read of a round find no newline in what
  is left to read, and let that rest not be empty. Then the
  round sends nothing: it prints the rest, seeks the file to the offset \<open>Tell\<close> gave before
  the read (the cursor less what the reader held), empties the reader, and goes on to
  wait for changes in that state. Where the reader held what the file has before the
  cursor, what is left to read after the seek is what was left before the read.
\<close>

theorem half_line_rewound:
  assumes "Follow (config t)" "\<not> Pipe (config t)"
    and "file' t = Some f" "kind f = Regular" "reader t = Some r" "length (rbuf r) \<le> pos f"
    and "newline \<notin> set (stream r f w)" "stream r f w \<noteq> []"
    and "int (pos f) \<le> s_maxbytes (fs w)"
  shows "fst (Tell t w) = Ret (int (pos f) - int (length (rbuf r)), None) \<and>
         (\<exists>w'. iteration offset t w =
                  wait_more (int (pos f) - int (length (rbuf r)))
                    (rewound t f (pos f - length (rbuf r))) w' \<and>
                same_env w w' \<and> IoPrint (stream r f w) \<in> set (trace w')) \<and>
         Lines (rewound t f (pos f - length (rbuf r))) = Lines t \<and>
         (rbuf r = take (length (rbuf r)) (drop (pos f - length (rbuf r)) (inodes (fs w) (ino f))) \<longrightarrow>
            stream NewReader (f\<lparr>pos := pos f - length (rbuf r)\<rparr>) w = stream r f w)"
proof -
  define n where "n = pos f - length (rbuf r)"
  have off: "loop_offset offset t f r = int n"
    using assms(2,6) by (simp add: loop_offset_def n_def)
  from iteration_eof [OF assms(3,4,5,7), of offset]
  obtain r1 f1 w1 where it:
    "iteration offset t w = on_EOF (int n) (stream r f w) (t\<lparr>reader := Some r1, file' := Some f1\<rparr>) w1"
    "rbuf r1 = []" "same_file f f1" "same_env w w1"
    unfolding off by blast
  let ?t1 = "t\<lparr>reader := Some r1, file' := Some f1\<rparr>"
  have k1: "kind f1 \<noteq> Fifo" using it(3) assms(4) by (simp add: same_file_def)
  have n1: "int n \<le> s_maxbytes (fs w1)"
    using assms(9) it(4) by (simp add: n_def same_env_def)
  define w2 where "w2 = emit (IoSeek (fname f1) (int n) 0) (Println (stream r f w) w1)"
  have "on_EOF (int n) (stream r f w) ?t1 w1 =
          wait_more (int n) (?t1\<lparr>file' := Some (f1\<lparr>pos := n\<rparr>), reader := Some (Reset r1)\<rparr>) w2"
    using on_EOF_follow [of ?t1 f1 r1 "stream r f w" "int n" w1] assms(1,8) k1 n1
    by (simp add: w2_def)
  moreover have "?t1\<lparr>file' := Some (f1\<lparr>pos := n\<rparr>), reader := Some (Reset r1)\<rparr> = rewound t f n"
    using os_File_pos_eq [OF it(3), of n] it(2)
    by (cases t; cases r1) (simp add: rewound_def Reset_def NewReader_def)
  ultimately have "iteration offset t w = wait_more (int n) (rewound t f n) w2"
    using it(1) by simp
  moreover have "same_env w w2" using it(4) by (simp add: same_env_def w2_def Println_def)
  moreover have "IoPrint (stream r f w) \<in> set (trace w2)"
    by (simp add: w2_def Println_def)
  moreover have "fst (Tell t w) = Ret (int (pos f) - int (length (rbuf r)), None)"
    using Tell_regular [OF assms(3,4,5), of w] by simp
  moreover have "stream NewReader (f\<lparr>pos := n\<rparr>) w = stream r f w"
    if "rbuf r = take (length (rbuf r)) (drop n (inodes (fs w) (ino f)))"
  proof -
    let ?c = "inodes (fs w) (ino f)"
    have "drop n ?c = take (length (rbuf r)) (drop n ?c) @ drop (length (rbuf r)) (drop n ?c)"
      by (simp only: append_take_drop_id)
    also have "drop (length (rbuf r)) (drop n ?c) = drop (pos f) ?c"
      using assms(6) by (simp add: n_def)
    finally show ?thesis using that by (simp add: stream_def NewReader_def)
  qed
  ultimately show ?thesis
    using assms(6) unfolding n_def [symmetric] by (auto simp: rewound_def n_def)
qed

theorem half_line_rewound_witness:
  "fst (Tell tail0 (wfile (nl_text [''a''] ''b''))) = Ret (2, None) \<and>
   (\<exists>w'. iteration 0 tail0 (wfile (nl_text [''a''] ''b'')) =
            wait_more 2 (rewound tail0 file0 2) w' \<and>
          same_env (wfile (nl_text [''a''] ''b'')) w' \<and> IoPrint ''b'' \<in> set (trace w')) \<and>
   Lines (rewound tail0 file0 2) = [] \<and>
   stream NewReader (file0\<lparr>pos := 2\<rparr>) (wfile (nl_text [''a''] ''b'')) = ''b''"
  using half_line_rewound [of tail0 file0 "\<lparr>rbuf = ''b''\<rparr>" "wfile (nl_text [''a''] ''b'')" 0]
  by (simp add: tail0_def file0_def wfile_def world0_def nl_text_def stream_def newline_def
      rewound_def s_maxbytes_def)

text \<open>
  C2, as the claim states it, for every tail with \<open>Follow\<close>: with \<open>Pipe\<close> set the loop
  takes no offset before the read, and the seek after the half line \<open>b\<close> goes to offset 0,
  not to offset 2 where \<open>b\<close> begins; when the newline arrives the line \<open>a\<close> is delivered a
  second time.
\<close>

theorem half_line_Pipe_counterexample:
  "Follow (config tail_pipe) \<and>
   fst (Tell tail_pipe (wfile (nl_text [''a''] ''b''))) = Ret (2, None) \<and>
   fst (readLine tail_pipe (wfile (nl_text [''a''] ''b''))) = Ret (''b'', Some EOF) \<and>
   map_option pos (file' (fst (snd (projr (iteration 0 tail_pipe (wfile (nl_text [''a''] ''b'')))))))
     = Some 0 \<and>
   map Text (Lines (snd (projr (fst
     (tail_run ''log'' (cfg0\<lparr>Follow := True, Pipe := True\<rparr>)
        ((wfile (nl_text [''a''] ''b''))\<lparr>changes_script := [(append_newline, Modified)]\<rparr>)))))) =
     [''a'', ''a'', ''b'']"
  by code_simp

subsection \<open>The seek to \<open>Location\<close>\<close>

lemma relocate_sel [simp]:
  "file' (relocate l t) = file' t" "reader (relocate l t) = reader t"
  "changes (relocate l t) = changes t" "tomb (relocate l t) = tomb t"
  "Lines (relocate l t) = Lines t" "lines_closed (relocate l t) = lines_closed t"
  "Filename (relocate l t) = Filename t" "watcher (relocate l t) = watcher t"
  "ReOpen (config (relocate l t)) = ReOpen (config t)"
  "Follow (config (relocate l t)) = Follow (config t)"
  "Pipe (config (relocate l t)) = Pipe (config t)"
  "MustExist (config (relocate l t)) = MustExist (config t)"
  "Location (config (relocate l t)) = l"
  by (simp_all add: relocate_def)

lemma relocate_upd [simp]:
  "(relocate l t)\<lparr>file' := a\<rparr> = relocate l (t\<lparr>file' := a\<rparr>)"
  "(relocate l t)\<lparr>reader := b\<rparr> = relocate l (t\<lparr>reader := b\<rparr>)"
  "(relocate l t)\<lparr>changes := c\<rparr> = relocate l (t\<lparr>changes := c\<rparr>)"
  "(relocate l t)\<lparr>tomb := d\<rparr> = relocate l (t\<lparr>tomb := d\<rparr>)"
  "(relocate l t)\<lparr>Lines := e\<rparr> = relocate l (t\<lparr>Lines := e\<rparr>)"
  "(relocate l t)\<lparr>lines_closed := g\<rparr> = relocate l (t\<lparr>lines_closed := g\<rparr>)"
  by (simp_all add: relocate_def)

lemma Tell_relocate: "Tell (relocate l t) w = relocate_res l (Tell t w)"
  by (simp add: Tell_def split: option.splits prod.splits sum.splits)

lemma readLine_relocate: "readLine (relocate l t) w = relocate_res l (readLine t w)"
  by (simp add: readLine_def split: option.splits prod.splits outcome.splits)

lemma sendLine_relocate: "sendLine (relocate l t) line w = relocate_res l (sendLine t line w)"
  by (simp add: sendLine_def)

lemma seekTo_relocate: "seekTo (relocate l t) sk w = relocate_res l (seekTo t sk w)"
  by (simp add: seekTo_def split: option.splits prod.splits sum.splits)

lemma kill_return_relocate: "kill_return err (relocate l t) w = relocate_res l (kill_return err t w)"
  by (simp add: kill_return_def split: option.splits)

lemma poll_dying_relocate:
  "poll_dying offset (relocate l t) w = relocate_step l (poll_dying offset t w)"
  by (simp add: poll_dying_def)

lemma closeFile_relocate:
  "closeFile (relocate l t) w = (case closeFile t w of (t', w') \<Rightarrow> (relocate l t', w'))"
  by (simp add: closeFile_def split: option.splits)

lemma BlockUntilExists_relocate:
  "BlockUntilExists (relocate l t) w = relocate_res l (BlockUntilExists t w)"
  by (simp add: BlockUntilExists_def Let_def
      split: list.splits prod.splits exists_event.splits option.splits)

lemma reopen_loop_relocate: "reopen_loop (relocate l t) w = relocate_res l (reopen_loop t w)"
proof (induction t w rule: reopen_loop.induct)
  case (1 t w)
  show ?case
    apply (subst reopen_loop.simps [of t w])
    apply (subst reopen_loop.simps [of "relocate l t" w])
    apply (auto simp: BlockUntilExists_relocate "1.IH"
        split: prod.splits sum.splits outcome.splits option.splits)
    done
qed

lemma reopen_relocate: "reopen (relocate l t) w = relocate_res l (reopen t w)"
  by (simp add: reopen_def closeFile_relocate reopen_loop_relocate split: prod.splits)

lemma openReader_relocate: "openReader (relocate l t) = relocate l (openReader t)"
  by (simp add: openReader_def)

lemma reopen_openReader_relocate:
  "(case reopen (relocate l t) w of
      (Ret None, t3, w3) \<Rightarrow> (Ret None, openReader t3, w3)
    | (r, t3, w3) \<Rightarrow> (r, t3, w3)) =
   relocate_res l (case reopen t w of
      (Ret None, t3, w3) \<Rightarrow> (Ret None, openReader t3, w3)
    | (r, t3, w3) \<Rightarrow> (r, t3, w3))"
proof -
  obtain r t3 w3 where ro: "reopen t w = (r, t3, w3)" by (cases "reopen t w") auto
  show ?thesis
    by (cases r) (auto simp: reopen_relocate ro openReader_relocate split: option.splits)
qed

lemma waitForChanges_relocate:
  "waitForChanges (relocate l t) w = relocate_res l (waitForChanges t w)"
proof -
  define prep :: "Tail \<Rightarrow> error option \<times> Tail \<times> World"
    where "prep = (\<lambda>t. if changes t = None then
              (case file_Seek (file' t) 0 1 w of
                 (Inl err, fo, w1) \<Rightarrow> (Some err, t\<lparr>file' := fo\<rparr>, w1)
               | (Inr p, fo, w1) \<Rightarrow>
                   (case ChangeEvents (watcher t) p w1 of
                      (Inl err, w2) \<Rightarrow> (Some err, t\<lparr>file' := fo, changes := None\<rparr>, w2)
                    | (Inr fc, w2) \<Rightarrow> (None, t\<lparr>file' := fo, changes := Some fc\<rparr>, w2)))
            else (None, t, w))"
  define sel :: "Tail \<Rightarrow> World \<Rightarrow> error option outcome \<times> Tail \<times> World"
    where "sel = (\<lambda>t1 w1. if dying (tomb t1) then (Ret (Some ErrStop), t1, w1)
           else
             (case changes_script w1 of
                [] \<Rightarrow> (Block, t1, w1)
              | (chg, ev) # rest \<Rightarrow>
                  (let w2 = w1\<lparr>fs := chg (fs w1), changes_script := rest\<rparr> in
                   case ev of
                     Modified \<Rightarrow> (Ret None, t1, w2)
                   | Deleted \<Rightarrow>
                       (if ReOpen (config t1) then
                          (case reopen (t1\<lparr>changes := None\<rparr>) w2 of
                             (Ret None, t3, w3) \<Rightarrow> (Ret None, openReader t3, w3)
                           | (r, t3, w3) \<Rightarrow> (r, t3, w3))
                        else (Ret (Some ErrStop), t1\<lparr>changes := None\<rparr>, w2))
                   | Truncated \<Rightarrow>
                       (case reopen t1 w2 of
                          (Ret None, t3, w3) \<Rightarrow> (Ret None, openReader t3, w3)
                        | (r, t3, w3) \<Rightarrow> (r, t3, w3))
                   | Killed r \<Rightarrow>
                       (case Kill r (tomb t1) of
                          None \<Rightarrow> (Panic, t1, w2)
                        | Some tb \<Rightarrow> (Ret (Some ErrStop), t1\<lparr>tomb := tb\<rparr>, w2)))))"
  have wf: "waitForChanges t w =
      (case prep t of (Some err, t1, w1) \<Rightarrow> (Ret (Some err), t1, w1) | (None, t1, w1) \<Rightarrow> sel t1 w1)"
    for t
    unfolding waitForChanges_def prep_def sel_def by (rule refl)
  have su: "prep (relocate l t) = relocate_res l (prep t)"
    by (simp add: prep_def split: prod.splits sum.splits)
  have se: "sel (relocate l t1) w1 = relocate_res l (sel t1 w1)" for t1 w1
  proof (cases "changes_script w1")
    case Nil
    then show ?thesis by (simp add: sel_def)
  next
    case (Cons a rest)
    obtain chg ev where a: "a = (chg, ev)" by (cases a) auto
    show ?thesis
      unfolding sel_def
      apply (insert Cons a)
      apply (cases ev)
         apply (simp_all add: Let_def reopen_openReader_relocate split: option.splits)
      done
  qed
  obtain eo t1 w1 where s1: "prep t = (eo, t1, w1)" by (cases "prep t") auto
  show ?thesis
    unfolding wf su s1 by (cases eo) (simp_all add: se)
qed

lemma wait_more_relocate:
  "wait_more offset (relocate l t) w = relocate_step l (wait_more offset t w)"
proof -
  obtain r t2 w2 where wf: "waitForChanges t w = (r, t2, w2)"
    by (cases "waitForChanges t w") auto
  have wf': "waitForChanges (relocate l t) w = (r, relocate l t2, w2)"
    using waitForChanges_relocate [of l t w] wf by simp
  show ?thesis
    unfolding wait_more_def wf wf'
    by (cases r)
      (simp_all add: kill_return_relocate poll_dying_relocate split: option.splits)
qed

lemma on_EOF_relocate:
  "on_EOF offset line (relocate l t) w = relocate_step l (on_EOF offset line t w)"
proof (cases "Follow (config t)")
  case False
  then show ?thesis by (simp add: on_EOF_def sendLine_relocate)
next
  case True
  show ?thesis
  proof (cases "line = []")
    case True
    then show ?thesis using \<open>Follow (config t)\<close> by (simp add: on_EOF_def wait_more_relocate)
  next
    case False
    obtain r t1 w1 where sk: "seekTo t \<lparr>Offset = offset, Whence = 0\<rparr> (Println line w) = (r, t1, w1)"
      by (cases "seekTo t \<lparr>Offset = offset, Whence = 0\<rparr> (Println line w)") auto
    have sk': "seekTo (relocate l t) \<lparr>Offset = offset, Whence = 0\<rparr> (Println line w) =
        (r, relocate l t1, w1)"
      using seekTo_relocate [of l t "\<lparr>Offset = offset, Whence = 0\<rparr>" "Println line w"] sk by simp
    show ?thesis
      unfolding on_EOF_def using \<open>Follow (config t)\<close> False
      by (cases r)
        (simp_all add: sk sk' wait_more_relocate kill_return_relocate split: option.splits)
  qed
qed

lemma iteration_relocate:
  "iteration offset (relocate l t) w = relocate_step l (iteration offset t w)"
proof -
  define tel where "tel = (\<lambda>t::Tail. if \<not> Pipe (config t) then Tell t w else (Ret (offset, None), t, w))"
  have it: "iteration offset t w =
     (case tel t of
        (Ret (offset1, Some err), t1, w1) \<Rightarrow> Inr (kill_return err t1 w1)
      | (Ret (offset1, None), t1, w1) \<Rightarrow>
          (case readLine t1 w1 of
             (Ret (line, None), t2, w2) \<Rightarrow>
               (case sendLine t2 line w2 of
                  (Ret u, t3, w3) \<Rightarrow> poll_dying offset1 t3 w3
                | (e, t3, w3) \<Rightarrow> Inr (e, t3, w3))
           | (Ret (line, Some err), t2, w2) \<Rightarrow>
               (if err = EOF then on_EOF offset1 line t2 w2
                else Inr (kill_return
                            (Errorf (''Error reading '' @ Filename t2 @ '': '' @ Error err)) t2 w2))
           | (e, t2, w2) \<Rightarrow> Inr (stop_of e, t2, w2))
      | (e, t1, w1) \<Rightarrow> Inr (stop_of e, t1, w1))" for t
    unfolding iteration_def tel_def by (rule refl)
  have te: "tel (relocate l t) = relocate_res l (tel t)"
    by (simp add: tel_def Tell_relocate)
  obtain r1 t1 w1 where t1: "tel t = (r1, t1, w1)" by (cases "tel t") auto
  obtain r2 t2 w2 where rl: "readLine t1 w1 = (r2, t2, w2)" by (cases "readLine t1 w1") auto
  have rl': "readLine (relocate l t1) w1 = (r2, relocate l t2, w2)"
    using readLine_relocate [of l t1 w1] rl by simp
  show ?thesis
  proof (cases "\<exists>off1. r1 = Ret (off1, None)")
    case False
    then show ?thesis
      unfolding it te t1
      by (cases r1) (auto simp: kill_return_relocate split: option.splits)
  next
    case True
    then obtain off1 where r1: "r1 = Ret (off1, None)" by auto
    show ?thesis
    proof (cases r2)
      case (Ret le)
      obtain line eo where le: "le = (line, eo)" by (cases le) auto
      show ?thesis
      proof (cases eo)
        case None
        obtain r3 t3 w3 where sl: "sendLine t2 line w2 = (r3, t3, w3)"
          by (cases "sendLine t2 line w2") auto
        have sl': "sendLine (relocate l t2) line w2 = (r3, relocate l t3, w3)"
          using sendLine_relocate [of l t2 line w2] sl by simp
        show ?thesis
          unfolding it te t1 using r1 Ret le None
          by (cases r3) (simp_all add: rl rl' sl sl' poll_dying_relocate)
      next
        case (Some err)
        show ?thesis
          unfolding it te t1 using r1 Ret le Some
          by (simp add: rl rl' on_EOF_relocate kill_return_relocate)
      qed
    next
      case Block
      then show ?thesis unfolding it te t1 using r1 by (simp add: rl rl')
    next
      case Panic
      then show ?thesis unfolding it te t1 using r1 by (simp add: rl rl')
    qed
  qed
qed

lemma tailLoop_relocate:
  "tailLoop offset (relocate l t) w = relocate_res l (tailLoop offset t w)"
proof (induction offset t w rule: tailLoop.induct)
  case (1 offset t w)
  show ?case
  proof (cases "iteration offset t w")
    case (Inl a)
    obtain o1 t1 w1 where a: "a = (o1, t1, w1)" by (cases a) auto
    show ?thesis
      using "1.IH" [OF Inl a [symmetric] refl] Inl a
      by (simp add: tailLoop.simps [of offset t w] tailLoop.simps [of offset "relocate l t" w]
          iteration_relocate)
  next
    case (Inr b)
    then show ?thesis
      by (cases b)
        (simp add: tailLoop.simps [of offset t w] tailLoop.simps [of offset "relocate l t" w]
          iteration_relocate)
  qed
qed

lemma tailFileSync_body_seek_fails:
  assumes "paths (fs w) (Filename t) = Node Regular i"
    and "MustExist (config t) \<longrightarrow> file' t = Some (opened (Filename t) i 0)"
    and "Location (config t) = Some loc"
    and "tomb t = \<lparr>dying = False, reason = None, dead = False\<rparr>"
    and "lseek (fs w) (opened (Filename t) i 0) (Offset loc) (Whence loc) = Inl e"
  shows "\<exists>w1. tailFileSync_body t w =
           (Ret (),
            t\<lparr>file' := Some (opened (Filename t) i 0),
              tomb := \<lparr>dying = True,
                       reason = Some (Errorf (''Seek error on '' @ Filename t @ '': '' @
                                        Error (PathError ''seek'' (Filename t) e))),
                       dead = False\<rparr>\<rparr>, w1) \<and>
         same_env w w1"
proof -
  define t1 where "t1 = t\<lparr>file' := Some (opened (Filename t) i 0)\<rparr>"
  obtain w1 where op: "(if \<not> MustExist (config t) then reopen t w else (Ret None, t, w)) =
      (Ret None, t1, w1)" "same_env w w1"
  proof (cases "MustExist (config t)")
    case True
    then have "t1 = t" using assms(2) by (simp add: t1_def)
    then show ?thesis using that [of w] True by simp
  next
    case False
    then show ?thesis using reopen_present [OF assms(1)] that by (auto simp: t1_def opened_def)
  qed
  have c1: "fs w1 = fs w" using op(2) by (simp add: same_env_def)
  define w2 where "w2 = emit (IoSeek (Filename t) (Offset loc) (Whence loc)) w1"
  have sk: "file_Seek (Some (opened (Filename t) i 0)) (Offset loc) (Whence loc) w1 =
      (Inl (PathError ''seek'' (Filename t) e), Some (opened (Filename t) i 0), w2)"
    using assms(5) c1
    by (simp add: file_Seek_def os_Seek_def Let_def w2_def) (simp add: opened_def)
  have ft1: "file' t1 = Some (opened (Filename t) i 0)" "Location (config t1) = Some loc"
    "Filename t1 = Filename t" "tomb t1 = \<lparr>dying = False, reason = None, dead = False\<rparr>"
    "t1\<lparr>file' := Some (opened (Filename t) i 0)\<rparr> = t1"
    using assms(3,4) by (simp_all add: t1_def)
  have "tailFileSync_body t w =
           (Ret (),
            t\<lparr>file' := Some (opened (Filename t) i 0),
              tomb := \<lparr>dying = True,
                       reason = Some (Errorf (''Seek error on '' @ Filename t @ '': '' @
                                        Error (PathError ''seek'' (Filename t) e))),
                       dead = False\<rparr>\<rparr>, w2)"
    unfolding tailFileSync_body_def op(1)
    by (simp add: ft1 sk kill_return_def Kill_def) (simp add: t1_def)
  moreover have "same_env w w2" using op(2) by (simp add: same_env_def w2_def)
  ultimately show ?thesis by blast
qed

lemma tailFileSync_body_seek_lands:
  assumes "paths (fs w) (Filename t) = Node Regular i"
    and "MustExist (config t) \<longrightarrow> file' t = Some (opened (Filename t) i 0)"
    and "Location (config t) = Some loc"
    and "lseek (fs w) (opened (Filename t) i 0) (Offset loc) (Whence loc) = Inr p"
  shows "\<exists>w1. tailFileSync_body t w =
           tailLoop 0 (t\<lparr>file' := Some (opened (Filename t) i p), reader := Some NewReader\<rparr>) w1 \<and>
         same_env w w1"
  using tailFileSync_body_start [OF assms(1,2), of p]
    start_pos_Some [OF assms(3), of "fs w" i "Filename t"] assms(4)
  by simp

text \<open>After a reopen the loop reads the new file from its first byte.\<close>

lemma reopened_reads_from_start:
  assumes "can_watch t f w" "changes_script w = (chg, ev) # rest"
    and "ev = Truncated \<or> (ev = Deleted \<and> ReOpen (config t))"
    and "paths (chg (fs w)) (Filename t) = Node Regular j"
    and "Follow (config t)" "\<not> lines_closed t"
    and "inodes (chg (fs w)) j = nl_text ls frag"
    and "\<forall>l\<in>set ls. newline \<notin> set l" "newline \<notin> set frag"
    and "int (length (inodes (chg (fs w)) j)) \<le> s_maxbytes (chg (fs w))"
    and "0 \<le> offset" "offset \<le> s_maxbytes (chg (fs w))"
  shows "\<exists>t3 w3. waitForChanges t w = (Ret None, t3, w3) \<and>
           wait_more offset t w = Inl (offset, t3, w3) \<and>
           file' t3 = Some \<lparr>fname = Filename t, kind = Regular, ino = j, pos = 0\<rparr> \<and>
           reader t3 = Some NewReader \<and> Location (config t3) = Location (config t) \<and>
           (\<exists>offset' r' f' L' w'.
              tailLoop offset t3 w3 =
                (case wait_more offset' (t3\<lparr>reader := Some r', file' := Some f', Lines := L'\<rparr>) w' of
                   Inl (o2, t4, w4) \<Rightarrow> tailLoop o2 t4 w4
                 | Inr res \<Rightarrow> res) \<and>
              map Text L' = map Text (Lines t) @ ls \<and> same_env w3 w')"
proof -
  define f3 where "f3 = \<lparr>fname = Filename t, kind = Regular, ino = j, pos = 0\<rparr>"
  define t3 where "t3 = (if ev = Deleted then t\<lparr>changes := None\<rparr> else watched t)
        \<lparr>file' := Some f3, reader := Some NewReader\<rparr>"
  define w3 where "w3 = emit (IoOpen (Filename t))
        (emit (IoClose (fname f)) (turned chg (watched_world t f w)))"
  have wf: "waitForChanges t w = (Ret None, t3, w3)"
    using waitForChanges_reopened [OF assms(1,2,3,4)] by (simp add: t3_def w3_def f3_def)
  have nd: "\<not> dying (tomb t)" using assms(1) by (simp add: can_watch_def)
  have sel: "file' t3 = Some f3" "reader t3 = Some NewReader" "config t3 = config t"
    "Lines t3 = Lines t" "lines_closed t3 = lines_closed t" "tomb t3 = tomb t"
    by (simp_all add: t3_def)
  have wm: "wait_more offset t w = Inl (offset, t3, w3)"
    using wf nd sel(6) by (simp add: wait_more_def poll_dying_def)
  have fs3: "fs w3 = chg (fs w)" by (simp add: w3_def)
  have st: "stream NewReader f3 w3 = nl_text ls frag"
    using assms(7) by (simp add: stream_def NewReader_def f3_def fs3)
  have h: "Follow (config t3)" "kind f3 = Regular" "\<not> lines_closed t3" "\<not> dying (tomb t3)"
    "length (rbuf NewReader) \<le> pos f3" "offset \<le> s_maxbytes (fs w3)"
    "int (pos f3) \<le> s_maxbytes (fs w3)"
    "int (length (inodes (fs w3) (ino f3))) \<le> s_maxbytes (fs w3)"
    using sel assms(5,6,10,11,12) nd by (simp_all add: fs3 f3_def NewReader_def)
  from tailLoop_follow_to_wait [OF h(1) sel(1) h(2) sel(2) h(3,4,5) assms(11) st assms(8,9) h(6,7,8)]
  obtain offset' r' f' L' w' where lp:
    "tailLoop offset t3 w3 =
       (case wait_more offset' (t3\<lparr>reader := Some r', file' := Some f', Lines := L'\<rparr>) w' of
          Inl (o2, t4, w4) \<Rightarrow> tailLoop o2 t4 w4
        | Inr res \<Rightarrow> res)"
    "map Text L' = map Text (Lines t3) @ ls" "same_env w3 w'"
    by blast
  have ex: "\<exists>offset' r' f' L' w'.
          tailLoop offset t3 w3 =
            (case wait_more offset' (t3\<lparr>reader := Some r', file' := Some f', Lines := L'\<rparr>) w' of
               Inl (o2, t4, w4) \<Rightarrow> tailLoop o2 t4 w4
             | Inr res \<Rightarrow> res) \<and>
          map Text L' = map Text (Lines t) @ ls \<and> same_env w3 w'"
    using lp unfolding sel(4) by blast
  have f3': "file' t3 = Some \<lparr>fname = Filename t, kind = Regular, ino = j, pos = 0\<rparr>"
    using sel(1) by (simp add: f3_def)
  have loc: "Location (config t3) = Location (config t)" using sel(3) by simp
  show ?thesis
    by (intro exI [of _ t3] exI [of _ w3] conjI wf wm f3' sel(2) loc ex)
qed

text \<open>
  C7, as the claim states it, with \<open>ErrSeek\<close> as the error of a failed initial seek: the
  seek to offset -1 from the start fails, and the error the tail dies with is the one
  \<open>Killf\<close> makes from its format, the file name and the cause. It is not \<open>ErrSeek\<close>, which
  only \<open>seekTo\<close> returns.
\<close>

theorem initial_seek_error_counterexample:
  "reason (tomb (snd (projr (fst
     (tail_run ''log'' (cfg_loc (- 1)) (wfile (nl_text [''a'', ''b''] []))))))) =
     Some (Errorf ''Seek error on log: seek log: invalid argument'') \<and>
   reason (tomb (snd (projr (fst
     (tail_run ''log'' (cfg_loc (- 1)) (wfile (nl_text [''a'', ''b''] []))))))) \<noteq> Some ErrSeek"
  by code_simp

text \<open>
  C7, amended. Take a tail on a regular file, alive, with a \<open>Location\<close>, and already open
  if \<open>MustExist\<close> says so. If the seek to \<open>Location\<close> lands at a position, \<open>tailFileSync\<close> is
  the loop started on the file at that position with a new reader: the seek comes after
  the first open and before the loop. If the seek fails, the function returns with the
  tomb killed, and the error recorded is the one \<open>Killf\<close> makes: the words
  \<open>Seek error on\<close>, the file name and the cause. The loop itself, with all its waits and
  reopens, does the same whatever \<open>Location\<close> is. And after a \<open>Truncated\<close> signal, or a
  \<open>Deleted\<close> one with \<open>ReOpen\<close>, on a tail with \<open>Follow\<close>: the file is the path opened anew
  with its cursor at 0 and a new reader, whatever \<open>Location\<close> is, and the loop goes on
  to deliver the whole lines of the new file from its first byte before it waits again.
\<close>

theorem initial_seek_once:
  assumes "paths (fs w) (Filename t) = Node Regular i"
    and "MustExist (config t) \<longrightarrow> file' t = Some (opened (Filename t) i 0)"
    and "Location (config t) = Some loc"
    and "tomb t = \<lparr>dying = False, reason = None, dead = False\<rparr>"
    and "can_watch t2 f2 w2" "changes_script w2 = (chg, ev) # rest"
    and "ev = Truncated \<or> (ev = Deleted \<and> ReOpen (config t2))"
    and "paths (chg (fs w2)) (Filename t2) = Node Regular j"
    and "Follow (config t2)" "\<not> lines_closed t2"
    and "inodes (chg (fs w2)) j = nl_text ls frag"
    and "\<forall>l\<in>set ls. newline \<notin> set l" "newline \<notin> set frag"
    and "int (length (inodes (chg (fs w2)) j)) \<le> s_maxbytes (chg (fs w2))"
    and "0 \<le> offset" "offset \<le> s_maxbytes (chg (fs w2))"
  shows "(\<forall>p. lseek (fs w) (opened (Filename t) i 0) (Offset loc) (Whence loc) = Inr p \<longrightarrow>
            (\<exists>w1. tailFileSync_body t w =
                    tailLoop 0 (t\<lparr>file' := Some (opened (Filename t) i p),
                                  reader := Some NewReader\<rparr>) w1 \<and>
                  same_env w w1)) \<and>
         (\<forall>e. lseek (fs w) (opened (Filename t) i 0) (Offset loc) (Whence loc) = Inl e \<longrightarrow>
            (\<exists>w1. tailFileSync_body t w =
                    (Ret (),
                     t\<lparr>file' := Some (opened (Filename t) i 0),
                       tomb := \<lparr>dying = True,
                                reason = Some (Errorf (''Seek error on '' @ Filename t @ '': '' @
                                                 Error (PathError ''seek'' (Filename t) e))),
                                dead = False\<rparr>\<rparr>, w1) \<and>
                  same_env w w1)) \<and>
         (\<forall>l offset t' w'. tailLoop offset (relocate l t') w' = relocate_res l (tailLoop offset t' w')) \<and>
         (\<exists>t3 w3. waitForChanges t2 w2 = (Ret None, t3, w3) \<and>
            wait_more offset t2 w2 = Inl (offset, t3, w3) \<and>
            file' t3 = Some \<lparr>fname = Filename t2, kind = Regular, ino = j, pos = 0\<rparr> \<and>
            reader t3 = Some NewReader \<and> Location (config t3) = Location (config t2) \<and>
            (\<exists>offset' r' f' L' w'.
               tailLoop offset t3 w3 =
                 (case wait_more offset' (t3\<lparr>reader := Some r', file' := Some f', Lines := L'\<rparr>) w' of
                    Inl (o2, t4, w4) \<Rightarrow> tailLoop o2 t4 w4
                  | Inr res \<Rightarrow> res) \<and>
               map Text L' = map Text (Lines t2) @ ls \<and> same_env w3 w'))"
proof (intro conjI allI impI)
  fix p
  assume "lseek (fs w) (opened (Filename t) i 0) (Offset loc) (Whence loc) = Inr p"
  then show "\<exists>w1. tailFileSync_body t w =
                    tailLoop 0 (t\<lparr>file' := Some (opened (Filename t) i p),
                                  reader := Some NewReader\<rparr>) w1 \<and>
                  same_env w w1"
    by (rule tailFileSync_body_seek_lands [OF assms(1,2,3)])
next
  fix e
  assume "lseek (fs w) (opened (Filename t) i 0) (Offset loc) (Whence loc) = Inl e"
  then show "\<exists>w1. tailFileSync_body t w =
                    (Ret (),
                     t\<lparr>file' := Some (opened (Filename t) i 0),
                       tomb := \<lparr>dying = True,
                                reason = Some (Errorf (''Seek error on '' @ Filename t @ '': '' @
                                                 Error (PathError ''seek'' (Filename t) e))),
                                dead = False\<rparr>\<rparr>, w1) \<and>
                  same_env w w1"
    by (rule tailFileSync_body_seek_fails [OF assms(1,2,3,4)])
next
  fix l offset t' w'
  show "tailLoop offset (relocate l t') w' = relocate_res l (tailLoop offset t' w')"
    by (rule tailLoop_relocate)
next
  show "\<exists>t3 w3. waitForChanges t2 w2 = (Ret None, t3, w3) \<and>
            wait_more offset t2 w2 = Inl (offset, t3, w3) \<and>
            file' t3 = Some \<lparr>fname = Filename t2, kind = Regular, ino = j, pos = 0\<rparr> \<and>
            reader t3 = Some NewReader \<and> Location (config t3) = Location (config t2) \<and>
            (\<exists>offset' r' f' L' w'.
               tailLoop offset t3 w3 =
                 (case wait_more offset' (t3\<lparr>reader := Some r', file' := Some f', Lines := L'\<rparr>) w' of
                    Inl (o2, t4, w4) \<Rightarrow> tailLoop o2 t4 w4
                  | Inr res \<Rightarrow> res) \<and>
               map Text L' = map Text (Lines t2) @ ls \<and> same_env w3 w')"
    by (rule reopened_reads_from_start [OF assms(5-16)])
qed

lemma wfile_sel:
  "paths (fs (wfile c)) ''log'' = Node Regular 0" "inodes (fs (wfile c)) 0 = c"
  "s_maxbytes (fs (wfile c)) = 9223372036854775807"
  by (simp_all add: wfile_def world0_def s_maxbytes_def)

lemma wt_script_sel:
  "fs (wt_script c ev) = fs (wfile c)" "changes_script (wt_script c ev) = [(\<lambda>x. x, ev)]"
  "watch_err (wt_script c ev) = None"
  by (simp_all add: wt_script_def wfile_def world0_def)

lemma nl_text_ex_length: "length (nl_text [''x''] ''y'') = 3"
  by (simp add: nl_text_def)

lemma lseek_ex1: "lseek (fs (wfile (nl_text [''a'', ''b''] []))) (opened ''log'' 0 0) 2 0 = Inr 2"
  by code_simp

lemma lseek_ex2: "lseek (fs (wfile (nl_text [''a'', ''b''] []))) (opened ''log'' 0 0) (- 1) 0 = Inl EINVAL"
  by code_simp

lemma lseek_ex3:
  "lseek (fs (wfile (nl_text [''a'', ''b''] []))) (opened ''log'' 0 0) 9223372036854775807 2 = Inl EINVAL"
  by code_simp

lemma lseek_ex4: "lseek (fs (wfile (nl_text [''a'', ''b''] []))) (opened ''log'' 0 0) 0 3 = Inr 0"
  by code_simp

theorem initial_seek_once_witness:
  "(\<exists>w1. tailFileSync_body (new_tail ''log'' (cfg_loc 2)) (wfile (nl_text [''a'', ''b''] [])) =
          tailLoop 0 ((new_tail ''log'' (cfg_loc 2))
                        \<lparr>file' := Some (opened ''log'' 0 2), reader := Some NewReader\<rparr>) w1 \<and>
          same_env (wfile (nl_text [''a'', ''b''] [])) w1) \<and>
   (\<exists>w1. tailFileSync_body (new_tail ''log'' (cfg_seek 0 3)) (wfile (nl_text [''a'', ''b''] [])) =
          tailLoop 0 ((new_tail ''log'' (cfg_seek 0 3))
                        \<lparr>file' := Some (opened ''log'' 0 0), reader := Some NewReader\<rparr>) w1 \<and>
          same_env (wfile (nl_text [''a'', ''b''] [])) w1) \<and>
   (\<exists>w1. tailFileSync_body (new_tail ''log'' (cfg_loc (- 1))) (wfile (nl_text [''a'', ''b''] [])) =
          (Ret (),
           (new_tail ''log'' (cfg_loc (- 1)))
             \<lparr>file' := Some (opened ''log'' 0 0),
              tomb := \<lparr>dying = True,
                       reason = Some (Errorf ''Seek error on log: seek log: invalid argument''),
                       dead = False\<rparr>\<rparr>, w1) \<and>
          same_env (wfile (nl_text [''a'', ''b''] [])) w1) \<and>
   (\<exists>w1. tailFileSync_body (new_tail ''log'' (cfg_seek 9223372036854775807 2))
            (wfile (nl_text [''a'', ''b''] [])) =
          (Ret (),
           (new_tail ''log'' (cfg_seek 9223372036854775807 2))
             \<lparr>file' := Some (opened ''log'' 0 0),
              tomb := \<lparr>dying = True,
                       reason = Some (Errorf ''Seek error on log: seek log: invalid argument''),
                       dead = False\<rparr>\<rparr>, w1) \<and>
          same_env (wfile (nl_text [''a'', ''b''] [])) w1) \<and>
   (\<exists>t3 w3. waitForChanges tail0 (wt_script (nl_text [''x''] ''y'') Truncated) = (Ret None, t3, w3) \<and>
      wait_more 0 tail0 (wt_script (nl_text [''x''] ''y'') Truncated) = Inl (0, t3, w3) \<and>
      file' t3 = Some \<lparr>fname = ''log'', kind = Regular, ino = 0, pos = 0\<rparr> \<and>
      reader t3 = Some NewReader \<and> Location (config t3) = None \<and>
      (\<exists>offset' r' f' L' w'.
         tailLoop 0 t3 w3 =
           (case wait_more offset' (t3\<lparr>reader := Some r', file' := Some f', Lines := L'\<rparr>) w' of
              Inl (o2, t4, w4) \<Rightarrow> tailLoop o2 t4 w4
            | Inr res \<Rightarrow> res) \<and>
         map Text L' = [''x''] \<and> same_env w3 w'))"
  using initial_seek_once [of "wfile (nl_text [''a'', ''b''] [])" "new_tail ''log'' (cfg_loc 2)" 0
      "\<lparr>Offset = 2, Whence = 0\<rparr>" tail0 file0 "wt_script (nl_text [''x''] ''y'') Truncated"
      "\<lambda>x. x" Truncated "[]" 0 "[''x'']" "''y''" 0]
    initial_seek_once [of "wfile (nl_text [''a'', ''b''] [])" "new_tail ''log'' (cfg_seek 0 3)" 0
      "\<lparr>Offset = 0, Whence = 3\<rparr>" tail0 file0 "wt_script (nl_text [''x''] ''y'') Truncated"
      "\<lambda>x. x" Truncated "[]" 0 "[''x'']" "''y''" 0]
    initial_seek_once [of "wfile (nl_text [''a'', ''b''] [])" "new_tail ''log'' (cfg_loc (- 1))" 0
      "\<lparr>Offset = - 1, Whence = 0\<rparr>" tail0 file0 "wt_script (nl_text [''x''] ''y'') Truncated"
      "\<lambda>x. x" Truncated "[]" 0 "[''x'']" "''y''" 0]
    initial_seek_once [of "wfile (nl_text [''a'', ''b''] [])"
      "new_tail ''log'' (cfg_seek 9223372036854775807 2)" 0
      "\<lparr>Offset = 9223372036854775807, Whence = 2\<rparr>" tail0 file0
      "wt_script (nl_text [''x''] ''y'') Truncated"
      "\<lambda>x. x" Truncated "[]" 0 "[''x'']" "''y''" 0]
  by (simp add: wfile_sel wt_script_sel lseek_ex1 lseek_ex2 lseek_ex3 lseek_ex4 nl_text_ex_length
      can_watch_def tail0_def file0_def cfg_loc_def cfg_seek_def cfg0_def new_tail_def newline_def)

subsection \<open>Notifications\<close>

lemma sendOnlyIfEmpty_unbuffered:
  assumes "unbuffered ch"
  shows "sendOnlyIfEmpty ch =
           Ret (if 0 < receivers ch
                then ch\<lparr>receivers := receivers ch - 1, received := received ch @ [True]\<rparr>
                else ch)"
  using assms by (simp add: sendOnlyIfEmpty_def chan_send_def unbuffered_def)

lemma fc_step_unbuffered:
  assumes "all_unbuffered fc"
  shows "\<exists>fc'. fc_step x fc = Ret fc' \<and> all_unbuffered fc'"
  using assms
  by (cases x)
    (auto simp: all_unbuffered_def NotifyModified_def NotifyTruncated_def NotifyDeleted_def
      sendOnlyIfEmpty_unbuffered unbuffered_def)

lemma fc_run_unbuffered:
  "all_unbuffered fc \<Longrightarrow> \<exists>fc'. fc_run xs fc = Ret fc' \<and> all_unbuffered fc'"
proof (induction xs arbitrary: fc)
  case Nil
  then show ?case by simp
next
  case (Cons x xs)
  from fc_step_unbuffered [OF Cons.prems, of x]
  obtain fc1 where s: "fc_step x fc = Ret fc1" "all_unbuffered fc1" by blast
  from Cons.IH [OF s(2)] s(1) show ?case by simp
qed

lemma fc_run_no_receiver:
  assumes "all_unbuffered fc"
    and "receivers (chModified fc) = 0" "receivers (chTruncated fc) = 0" "receivers (chDeleted fc) = 0"
    and "\<forall>x\<in>set xs. x \<in> {DoNotifyModified, DoNotifyTruncated, DoNotifyDeleted}"
  shows "fc_run xs fc = Ret fc"
  using assms(5)
proof (induction xs)
  case Nil
  show ?case by simp
next
  case (Cons x xs)
  have "fc_step x fc = Ret fc"
    using Cons.prems assms(1-4)
    by (cases x)
      (auto simp: all_unbuffered_def NotifyModified_def NotifyTruncated_def NotifyDeleted_def
        sendOnlyIfEmpty_unbuffered)
  then show ?case using Cons by simp
qed

lemma NewFileChanges_unbuffered: "all_unbuffered NewFileChanges"
  by (simp add: all_unbuffered_def unbuffered_def NewFileChanges_def make_chan_def)

text \<open>
  C9. Start from the channels \<open>NewFileChanges\<close> makes and let notifications of the three
  kinds arrive in any number and order, with the consumer coming to wait and leaving in
  between as it likes. Every notification returns (none blocks, none panics), and
  after each of them the queue of each of the three channels is empty: nothing is ever
  kept for later. If no consumer ever waits, the channels are after all the
  notifications exactly as they were made. On one unbuffered channel: with a receiver
  waiting, \<open>sendOnlyIfEmpty\<close> hands it the value; with none, the channel is left as it was.
\<close>

theorem notify_drops_or_hands_over:
  "(\<exists>fc'. fc_run ops NewFileChanges = Ret fc' \<and>
       queue (chModified fc') = [] \<and> queue (chTruncated fc') = [] \<and> queue (chDeleted fc') = []) \<and>
   ((\<forall>x\<in>set ops. x \<in> {DoNotifyModified, DoNotifyTruncated, DoNotifyDeleted}) \<longrightarrow>
      fc_run ops NewFileChanges = Ret NewFileChanges) \<and>
   (unbuffered ch \<longrightarrow>
      sendOnlyIfEmpty ch =
        Ret (if 0 < receivers ch
             then ch\<lparr>receivers := receivers ch - 1, received := received ch @ [True]\<rparr>
             else ch))"
proof (intro conjI impI)
  from fc_run_unbuffered [OF NewFileChanges_unbuffered, of ops]
  show "\<exists>fc'. fc_run ops NewFileChanges = Ret fc' \<and>
       queue (chModified fc') = [] \<and> queue (chTruncated fc') = [] \<and> queue (chDeleted fc') = []"
    by (auto simp: all_unbuffered_def unbuffered_def)
next
  assume "\<forall>x\<in>set ops. x \<in> {DoNotifyModified, DoNotifyTruncated, DoNotifyDeleted}"
  then show "fc_run ops NewFileChanges = Ret NewFileChanges"
    using fc_run_no_receiver [OF NewFileChanges_unbuffered, of ops]
    by (simp add: NewFileChanges_def make_chan_def)
next
  assume "unbuffered ch"
  then show "sendOnlyIfEmpty ch =
        Ret (if 0 < receivers ch
             then ch\<lparr>receivers := receivers ch - 1, received := received ch @ [True]\<rparr>
             else ch)"
    by (rule sendOnlyIfEmpty_unbuffered)
qed

theorem notify_drops_or_hands_over_witness:
  "fc_run [DoNotifyModified, DoNotifyModified, DoNotifyDeleted, DoNotifyTruncated] NewFileChanges =
     Ret NewFileChanges \<and>
   sendOnlyIfEmpty make_chan = Ret make_chan \<and>
   sendOnlyIfEmpty (make_chan\<lparr>receivers := 1\<rparr>) = Ret (make_chan\<lparr>received := [True]\<rparr>) \<and>
   (\<exists>fc'. fc_run [Waiting 1 1 1, DoNotifyModified, Waiting 0 0 0, DoNotifyModified, DoNotifyModified]
             NewFileChanges = Ret fc' \<and>
      queue (chModified fc') = [] \<and> received (chModified fc') = [True])"
  using notify_drops_or_hands_over
      [of "[DoNotifyModified, DoNotifyModified, DoNotifyDeleted, DoNotifyTruncated]" make_chan]
    notify_drops_or_hands_over [of "[]" "make_chan\<lparr>receivers := 1\<rparr>"]
  by (simp add: unbuffered_def make_chan_def NewFileChanges_def NotifyModified_def
      sendOnlyIfEmpty_def chan_send_def)

end
